theory Spec2Isabelle
  imports Main "HOL-Library.Sublist"
begin

section \<open>Strings as the Python code uses them\<close>

text \<open>
  Python strings are modelled as \<open>string\<close> (lists of 8-bit characters); the texts the
  orchestrator and the coder agent match on are ASCII. \<open>contains s sub\<close> is Python's
  \<open>sub in s\<close>, \<open>startswith s p\<close> is \<open>s.startswith(p)\<close>, \<open>lower\<close> is
  \<open>str.lower()\<close> on ASCII letters and \<open>str_int\<close> is \<open>str(i)\<close> for an integer.
\<close>

definition startswith :: "string \<Rightarrow> string \<Rightarrow> bool" where
  "startswith s p = (take (length p) s = p)"

fun contains :: "string \<Rightarrow> string \<Rightarrow> bool" where
  "contains [] sub = (sub = [])"
| "contains (c # cs) sub = (startswith (c # cs) sub \<or> contains cs sub)"

definition lower_char :: "char \<Rightarrow> char" where
  "lower_char c =
     (case map_of (zip ''ABCDEFGHIJKLMNOPQRSTUVWXYZ'' ''abcdefghijklmnopqrstuvwxyz'') c of
        Some l \<Rightarrow> l
      | None \<Rightarrow> c)"

definition lower :: "string \<Rightarrow> string" where
  "lower s = map lower_char s"

definition digit_char :: "nat \<Rightarrow> char" where
  "digit_char d = ''0123456789'' ! d"

fun str_nat :: "nat \<Rightarrow> string" where
  "str_nat n = (if n < 10 then [digit_char n] else str_nat (n div 10) @ [digit_char (n mod 10)])"

declare str_nat.simps [simp del]

definition str_int :: "int \<Rightarrow> string" where
  "str_int i = (if i < 0 then CHR ''-'' # str_nat (nat (- i)) else str_nat (nat i))"

section \<open>The step and plan model (orchestrator.py, TaskStep and ExecutionPlan)\<close>

text \<open>
  The dataclass \<open>TaskStep\<close>; the field \<open>id\<close> is named \<open>id_step\<close> here. The status is
  the string the code stores. \<open>ExecutionPlan\<close> leaves out \<open>start_time\<close>, a reading of the
  clock that only the printed elapsed time uses.
\<close>

record TaskStep =
  id_step :: int
  description :: string
  agent_type :: string
  status :: string
  result :: string
  error :: string
  attempts :: int
  max_attempts :: int
  dependencies :: "string list"

record ExecutionPlan =
  goal :: string
  steps :: "TaskStep list"
  current_step :: int
  completed :: bool
  reflection_log :: "string list"

text \<open>
  \<open>next((s for s in self.steps if str(s.id) == str(dep_id)), None)\<close>: the first step whose
  identifier, printed, equals the dependency identifier (a string, whose \<open>str\<close> is itself).
\<close>

definition find_dep :: "TaskStep list \<Rightarrow> string \<Rightarrow> TaskStep option" where
  "find_dep ss dep_id = find (\<lambda>s. str_int (id_step s) = dep_id) ss"

text \<open>
  The inner loop of \<open>get_next_step\<close>: \<open>deps_met\<close> becomes false at the first dependency
  that resolves to a step whose status is not \<open>completed\<close>; a dependency that resolves to
  no step (\<open>dep_step\<close> is \<open>None\<close>) is passed over.
\<close>

fun deps_met :: "TaskStep list \<Rightarrow> string list \<Rightarrow> bool" where
  "deps_met ss [] = True"
| "deps_met ss (dep_id # ds) =
     (case find_dep ss dep_id of
        Some dep_step \<Rightarrow> if status dep_step \<noteq> ''completed'' then False else deps_met ss ds
      | None \<Rightarrow> deps_met ss ds)"

definition ready :: "TaskStep list \<Rightarrow> TaskStep \<Rightarrow> bool" where
  "ready ss s = (status s = ''pending'' \<and> deps_met ss (dependencies s))"

text \<open>
  The outer loop of \<open>get_next_step\<close>. The step object it returns is an element of
  \<open>self.steps\<close>; the model returns its position in the list, which is what the later
  in-place mutations of that object need.
\<close>

fun scan_steps :: "TaskStep list \<Rightarrow> nat \<Rightarrow> TaskStep list \<Rightarrow> nat option" where
  "scan_steps ss i [] = None"
| "scan_steps ss i (s # rest) = (if ready ss s then Some i else scan_steps ss (Suc i) rest)"

definition get_next_step :: "ExecutionPlan \<Rightarrow> nat option" where
  "get_next_step p = scan_steps (steps p) 0 (steps p)"

definition is_complete :: "ExecutionPlan \<Rightarrow> bool" where
  "is_complete p = list_all (\<lambda>s. status s = ''completed'' \<or> status s = ''failed'') (steps p)"

section \<open>Regular expressions of the orchestrator\<close>

text \<open>
  The class \<open>\w\<close> on ASCII text, and \<open>re.search\<close> as the leftmost position at which an
  anchored matcher succeeds. \<open>match_module_at\<close> is the pattern
  \<^verbatim>\<open>no module named ['"]?(\w+)\<close> anchored at the start of its argument, returning group 1:
  the optional quote is taken when a word character follows it, and the group is the
  longest run of word characters. \<open>match_pip_at\<close> is \<^verbatim>\<open>pip install (\w[\w\-]*)\<close>.
\<close>

definition is_word_char :: "char \<Rightarrow> bool" where
  "is_word_char c =
     (c \<in> set ''abcdefghijklmnopqrstuvwxyzABCDEFGHIJKLMNOPQRSTUVWXYZ0123456789_'')"

fun re_search :: "(string \<Rightarrow> 'a option) \<Rightarrow> string \<Rightarrow> 'a option" where
  "re_search m [] = m []"
| "re_search m (c # cs) = (case m (c # cs) of Some g \<Rightarrow> Some g | None \<Rightarrow> re_search m cs)"

definition match_module_at :: "string \<Rightarrow> string option" where
  "match_module_at s =
     (if startswith s ''no module named '' then
        (let r = drop (length ''no module named '') s;
             r1 = (case r of
                     [] \<Rightarrow> r
                   | c # cs \<Rightarrow>
                       if (c = CHR 0x27 \<or> c = CHR 0x22) \<and> takeWhile is_word_char cs \<noteq> []
                       then cs else r)
         in if takeWhile is_word_char r1 \<noteq> [] then Some (takeWhile is_word_char r1) else None)
      else None)"

definition match_pip_at :: "string \<Rightarrow> string option" where
  "match_pip_at s =
     (if startswith s ''pip install '' then
        (case drop (length ''pip install '') s of
           [] \<Rightarrow> None
         | c # cs \<Rightarrow>
             if is_word_char c
             then Some (c # takeWhile (\<lambda>x. is_word_char x \<or> x = CHR ''-'') cs) else None)
      else None)"

section \<open>Workers and the orchestrator's state\<close>

text \<open>
  A worker is an external collaborator: \<open>await agent.process(prompt, None)\<close> either returns
  an answer, after which \<open>agent.get_success\<close> is read, or raises. The model takes the
  behaviour of all workers as a parameter \<open>w\<close>: the outcome of the \<open>n\<close>-th invocation of
  the run, made on the worker registered under a key. The prompt text is not a parameter: a
  worker's answer is arbitrary already, whatever it is asked. An answer \<open>None\<close> is the empty
  string (the code reads it through \<open>answer or ""\<close> and through truth tests only).

  The registry \<open>self.agents\<close> is a dictionary; only its keys matter, in insertion order.
  \<open>invoked\<close> is a history variable: the keys of the workers invoked so far, in order.
\<close>

datatype fault = KeyError string | WorkerFault string

datatype outcome = Returns string bool | Raises string

type_synonym world = "nat \<Rightarrow> string \<Rightarrow> outcome"

record mem_entry =
  mem_step_id :: int
  mem_agent :: string
  mem_success :: bool
  mem_answer_preview :: string
  mem_retry_with_browse :: bool

record run_state =
  plan :: ExecutionPlan
  execution_memory :: "mem_entry list"
  invoked :: "string list"
  iteration :: nat
  consecutive_failures :: nat
  work_results :: "(string \<times> string) list"
  final_answer :: string

definition invoke :: "world \<Rightarrow> string \<Rightarrow> run_state \<Rightarrow> outcome \<times> run_state" where
  "invoke w key s = (w (length (invoked s)) key, s\<lparr>invoked := invoked s @ [key]\<rparr>)"

section \<open>Building the plan (create_plan_from_tasks)\<close>

datatype need_value = NeedStr string | NeedList "string list"

record agent_task =
  task_name :: string
  task :: "string option"
  agent :: "string option"
  need :: "need_value option"

definition new_step :: "int \<Rightarrow> string \<Rightarrow> string \<Rightarrow> int \<Rightarrow> string list \<Rightarrow> TaskStep" where
  "new_step i d a m deps =
     \<lparr>id_step = i, description = d, agent_type = a, status = ''pending'', result = [],
      error = [], attempts = 0, max_attempts = m, dependencies = deps\<rparr>"

definition task_deps :: "agent_task \<Rightarrow> string list" where
  "task_deps t =
     (case need t of
        None \<Rightarrow> []
      | Some (NeedStr d) \<Rightarrow> if d \<noteq> [] then [d] else []
      | Some (NeedList ds) \<Rightarrow> ds)"

definition task_step :: "nat \<Rightarrow> agent_task \<Rightarrow> TaskStep" where
  "task_step i t =
     new_step (int i + 1)
       (case task t of Some d \<Rightarrow> d | None \<Rightarrow> task_name t)
       (case agent t of Some a \<Rightarrow> a | None \<Rightarrow> ''coder'')
       3 (task_deps t)"

definition create_plan_from_tasks :: "string \<Rightarrow> agent_task list \<Rightarrow> ExecutionPlan" where
  "create_plan_from_tasks g agent_tasks =
     \<lparr>goal = g, steps = map (\<lambda>(i, t). task_step i t) (enumerate 0 agent_tasks),
      current_step = 0, completed = False, reflection_log = []\<rparr>"

section \<open>The dispatcher (execute_step)\<close>

text \<open>
  Worker resolution, lines 260 to 269: the lowercased tag if it is a key, else the first key
  that starts with the first three characters of the lowercased tag, else \<open>coder\<close>; then
  \<open>self.agents[agent_key]\<close>, which raises \<open>KeyError\<close> for a key that is not registered.
\<close>

definition resolve_agent :: "string list \<Rightarrow> string \<Rightarrow> fault + string" where
  "resolve_agent ags tag =
     (let agent_key = lower tag;
          agent_key1 =
            (if agent_key \<in> set ags then agent_key
             else (case find (\<lambda>key. startswith key (take 3 agent_key)) ags of
                     Some key \<Rightarrow> key
                   | None \<Rightarrow> ''coder''))
      in if agent_key1 \<in> set ags then Inr agent_key1 else Inl (KeyError agent_key1))"

text \<open>
  \<open>_coder_browse_for_install\<close>: no browse worker gives the empty text; otherwise the browse
  worker is invoked, its answer cut at 1500 characters, and a fault it raises is swallowed.
\<close>

definition coder_browse_for_install :: "world \<Rightarrow> string list \<Rightarrow> run_state \<Rightarrow> string \<times> run_state" where
  "coder_browse_for_install w ags s =
     (if ''web'' \<notin> set ags then ([], s)
      else (case invoke w ''web'' s of
              (Returns answer ok, s1) \<Rightarrow> (take 1500 answer, s1)
            | (Raises e, s1) \<Rightarrow> ([], s1)))"

definition install_signature :: "string \<Rightarrow> bool" where
  "install_signature error_text =
     (let error_lower = lower error_text
      in contains error_lower ''no module named'' \<or> contains error_lower ''pip install'' \<or>
         contains error_lower ''modulenotfounderror'')"

text \<open>
  The two \<open>re.search\<close> calls with \<open>re.IGNORECASE\<close>, run here on the lowercased text: the
  same positions match, and the package name (returned in lower case here) only goes into the
  search query and the prompt.
\<close>

definition package_match :: "string \<Rightarrow> string option" where
  "package_match error_text =
     (case re_search match_module_at (lower error_text) of
        Some g \<Rightarrow> Some g
      | None \<Rightarrow> re_search match_pip_at (lower error_text))"

text \<open>
  \<open>_handle_install_failure_with_browsing\<close>. Both prompts it can return are non-empty texts,
  so the model returns whether a prompt was produced; the text itself (the install commands
  found in the browse result) goes to the worker only.
\<close>

definition handle_install_failure_with_browsing ::
    "world \<Rightarrow> string list \<Rightarrow> run_state \<Rightarrow> string \<Rightarrow> bool \<times> run_state" where
  "handle_install_failure_with_browsing w ags s error_text =
     (if \<not> install_signature error_text then (False, s)
      else (case package_match error_text of
              None \<Rightarrow> (False, s)
            | Some package_name \<Rightarrow>
                (case coder_browse_for_install w ags s of
                   (browse_result, s1) \<Rightarrow> (browse_result \<noteq> [], s1))))"

definition memory_entry :: "TaskStep \<Rightarrow> string \<Rightarrow> bool \<Rightarrow> string \<Rightarrow> bool \<Rightarrow> mem_entry" where
  "memory_entry step agent_key ok answer retry =
     \<lparr>mem_step_id = id_step step, mem_agent = agent_key, mem_success = ok,
      mem_answer_preview = take 200 answer, mem_retry_with_browse = retry\<rparr>"

definition remember :: "mem_entry \<Rightarrow> run_state \<Rightarrow> run_state" where
  "remember e s = s\<lparr>execution_memory := execution_memory s @ [e]\<rparr>"

definition set_running :: "nat \<Rightarrow> run_state \<Rightarrow> run_state" where
  "set_running i s =
     s\<lparr>plan := (plan s)\<lparr>steps := (steps (plan s))[i := (steps (plan s) ! i)\<lparr>status := ''running''\<rparr>]\<rparr>\<rparr>"

text \<open>
  \<open>execute_step\<close> on the step at position \<open>i\<close> of the plan. The result is the pair
  \<open>(answer, success)\<close> with the new state, or the fault that leaves the function: the
  registry lookup stands before the \<open>try\<close>, the worker invocations stand inside it.
\<close>

definition execute_step ::
    "world \<Rightarrow> string list \<Rightarrow> run_state \<Rightarrow> nat \<Rightarrow> fault + (string \<times> bool \<times> run_state)" where
  "execute_step w ags s0 i =
     (let s = set_running i s0; step = steps (plan s) ! i
      in case resolve_agent ags (agent_type step) of
           Inl e \<Rightarrow> Inl e
         | Inr agent_key \<Rightarrow>
             (case invoke w agent_key s of
                (Raises e, s1) \<Rightarrow> Inr (''Error: '' @ e, False, s1)
              | (Returns answer ok, s1) \<Rightarrow>
                  (let s2 = remember (memory_entry step agent_key ok answer False) s1
                   in if \<not> ok \<and> agent_key = ''coder'' then
                        (case handle_install_failure_with_browsing w ags s2 answer of
                           (browse_fix, s3) \<Rightarrow>
                             if browse_fix then
                               (case invoke w agent_key s3 of
                                  (Raises e, s4) \<Rightarrow> Inr (''Error: '' @ e, False, s4)
                                | (Returns answer2 ok2, s4) \<Rightarrow>
                                    Inr (answer2, ok2,
                                      remember (memory_entry step agent_key ok2 answer2 True) s4))
                             else Inr (answer, ok, s3))
                      else Inr (answer, ok, s2))))"

section \<open>Reflection and plan revision\<close>

text \<open>
  \<open>reflect\<close> mutates the step it is given and returns the log line; \<open>reflect_step\<close> is
  that mutation, \<open>reflect\<close> applies it to the step at position \<open>i\<close> of \<open>self.plan\<close> and
  appends the line to the reflection log.
\<close>

definition reflect_step :: "TaskStep \<Rightarrow> string \<Rightarrow> bool \<Rightarrow> string \<times> TaskStep" where
  "reflect_step step res ok =
     (if ok then
        (''Langkah '' @ str_int (id_step step) @ '' berhasil: '' @ description step,
         step\<lparr>status := ''completed'', result := res\<rparr>)
      else
        (let step1 = step\<lparr>attempts := attempts step + 1\<rparr>
         in if attempts step1 \<ge> max_attempts step1 then
              (''Langkah '' @ str_int (id_step step1) @ '' gagal setelah '' @
                 str_int (max_attempts step1) @ '' percobaan: '' @ description step1,
               step1\<lparr>status := ''failed'', error := res\<rparr>)
            else
              (''Langkah '' @ str_int (id_step step1) @ '' gagal (percobaan '' @
                 str_int (attempts step1) @ ''/'' @ str_int (max_attempts step1) @
                 ''), akan dicoba lagi'',
               step1\<lparr>status := ''pending'', error := res\<rparr>)))"

definition reflect :: "ExecutionPlan \<Rightarrow> nat \<Rightarrow> string \<Rightarrow> bool \<Rightarrow> string \<times> ExecutionPlan" where
  "reflect p i res ok =
     (case reflect_step (steps p ! i) res ok of
        (reflection, step1) \<Rightarrow>
          (reflection,
           p\<lparr>steps := (steps p)[i := step1], reflection_log := reflection_log p @ [reflection]\<rparr>))"

definition nl :: string where
  "nl = [CHR 0x0A]"

definition sq :: string where
  "sq = [CHR 0x27]"

text \<open>The suffix both branches of \<open>revise_plan\<close> append to the recovery description.\<close>

definition error_suffix :: "TaskStep \<Rightarrow> string" where
  "error_suffix failed_step =
     nl @ nl @ ''ERROR SEBELUMNYA:'' @ nl @
     take 500 (if error failed_step = [] then ''Unknown error'' else error failed_step) @ nl @
     ''INSTRUKSI: Gunakan pendekatan BERBEDA. Jangan ulangi cara yang sama. '' @
     ''Kamu dilarang meminta klarifikasi, langsung eksekusi.''"

definition browse_description :: "string \<Rightarrow> string" where
  "browse_description module_name =
     ''[MULTI-TOOL BROWSE] Cari cara install library '' @ sq @ module_name @ sq @
     '' di Linux/Ubuntu. '' @
     ''Cari di web: '' @ sq @ ''how to install '' @ module_name @ '' python pip Linux'' @ sq @
     ''. '' @
     ''Catat perintah install yang benar.''"

definition install_recovery_description :: "string \<Rightarrow> TaskStep \<Rightarrow> string" where
  "install_recovery_description module_name failed_step =
     ''[RECOVERY - INSTALL DEPENDENCY WITH BROWSER INFO] '' @
     ''Gunakan informasi dari langkah browsing sebelumnya untuk install '' @ sq @ module_name @
     sq @ ''. '' @
     ''Lalu ulangi tugas asli: '' @ description failed_step"

definition alternative_agent :: "string \<Rightarrow> string" where
  "alternative_agent a =
     (case map_of [(''coder'', ''file''), (''file'', ''coder''), (''web'', ''casual''),
                   (''casual'', ''coder'')] (lower a) of
        Some b \<Rightarrow> b
      | None \<Rightarrow> a)"

text \<open>The branches of \<open>revise_plan\<close> that add one step: the worker tag and the description.\<close>

definition single_recovery :: "string \<Rightarrow> TaskStep \<Rightarrow> string \<times> string" where
  "single_recovery error_lower failed_step =
     (if contains error_lower ''permission'' \<or> contains error_lower ''access denied'' then
        (''file'',
         ''[RECOVERY - FIX PERMISSIONS] '' @
         ''Perbaiki permission/akses file yang bermasalah, '' @
         ''lalu ulangi tugas: '' @ description failed_step)
      else if contains error_lower ''syntax'' \<or> contains error_lower ''syntaxerror'' then
        (''coder'',
         ''[RECOVERY - FIX SYNTAX] '' @
         ''Perbaiki syntax error dalam kode. '' @
         ''Baca file yang bermasalah, identifikasi error syntax, dan perbaiki. '' @
         ''Tugas asli: '' @ description failed_step)
      else if contains error_lower ''timeout'' \<or> contains error_lower ''connection'' then
        (''web'',
         ''[RECOVERY - RETRY CONNECTION] '' @
         ''Coba lagi dengan query pencarian berbeda atau URL alternatif. '' @
         ''Tugas asli: '' @ description failed_step)
      else
        (alternative_agent (agent_type failed_step),
         ''[RECOVERY] Coba lagi dengan pendekatan berbeda: '' @ description failed_step))"

definition missing_dependency_error :: "string \<Rightarrow> bool" where
  "missing_dependency_error error_lower =
     (contains error_lower ''no module named'' \<or> contains error_lower ''import'')"

text \<open>
  The module name that the missing-dependency branch reads off the lowercased error text:
  \<open>module_match.group(1) if module_match else "yang dibutuhkan"\<close>.
\<close>

definition missing_module_name :: "string \<Rightarrow> string" where
  "missing_module_name error_lower =
     (case re_search match_module_at error_lower of
        Some g \<Rightarrow> g
      | None \<Rightarrow> ''yang dibutuhkan'')"

text \<open>
  \<open>revise_plan\<close>, on \<open>self.plan\<close> (which may be \<open>None\<close>: then nothing happens). New steps
  take the identifier \<open>len(self.plan.steps) + 1\<close> at the moment they are built.
\<close>

definition revise_plan :: "ExecutionPlan option \<Rightarrow> TaskStep \<Rightarrow> ExecutionPlan option" where
  "revise_plan self_plan failed_step =
     (case self_plan of
        None \<Rightarrow> None
      | Some p \<Rightarrow>
          (let error_lower = lower (error failed_step)
           in if missing_dependency_error error_lower then
                (let module_name = missing_module_name error_lower;
                     browse_step =
                       new_step (int (length (steps p)) + 1) (browse_description module_name)
                         ''web'' 2 (dependencies failed_step);
                     p1 = p\<lparr>steps := steps p @ [browse_step]\<rparr>;
                     retry_step =
                       new_step (int (length (steps p1)) + 1)
                         (install_recovery_description module_name failed_step @
                          error_suffix failed_step)
                         ''coder'' 2 [str_int (id_step browse_step)]
                 in Some (p1\<lparr>steps := steps p1 @ [retry_step]\<rparr>))
              else
                (case single_recovery error_lower failed_step of
                   (recovery_agent, recovery_description) \<Rightarrow>
                     Some (p\<lparr>steps := steps p @
                       [new_step (int (length (steps p)) + 1)
                          (recovery_description @ error_suffix failed_step)
                          recovery_agent 2 (dependencies failed_step)]\<rparr>))))"

section \<open>The run controller (run_loop)\<close>

definition deadlock_error :: string where
  "deadlock_error = ''Dependency deadlock: langkah yang dibutuhkan gagal''"

definition has_pending :: "ExecutionPlan \<Rightarrow> bool" where
  "has_pending p = list_ex (\<lambda>s. status s = ''pending'') (steps p)"

definition mark_deadlock :: "ExecutionPlan \<Rightarrow> ExecutionPlan" where
  "mark_deadlock p =
     p\<lparr>steps := map (\<lambda>s. if status s = ''pending''
                           then s\<lparr>status := ''failed'', error := deadlock_error\<rparr> else s)
                   (steps p)\<rparr>"

fun dict_set :: "(string \<times> string) list \<Rightarrow> string \<Rightarrow> string \<Rightarrow> (string \<times> string) list" where
  "dict_set [] k v = [(k, v)]"
| "dict_set ((k1, v1) # kvs) k v =
     (if k1 = k then (k1, v) # kvs else (k1, v1) # dict_set kvs k v)"

text \<open>
  What one iteration does once a step was dispatched and \<open>execute_step\<close> returned
  \<open>(res, ok)\<close>: reflection, the consecutive-failure counter, the gated revision, the
  bookkeeping of results.
\<close>

definition after_dispatch :: "run_state \<Rightarrow> nat \<Rightarrow> string \<Rightarrow> bool \<Rightarrow> run_state" where
  "after_dispatch s i res ok =
     (case reflect (plan s) i res ok of
        (reflection, p1) \<Rightarrow>
          (let failures = (if ok then 0 else consecutive_failures s + 1);
               step = steps p1 ! i;
               p2 = (if \<not> ok \<and> status step = ''failed'' then
                       (if failures < 3 then
                          (case revise_plan (Some p1) step of Some p \<Rightarrow> p | None \<Rightarrow> p1)
                        else p1)
                     else p1)
           in s\<lparr>plan := p2, consecutive_failures := failures,
                work_results := dict_set (work_results s) (str_int (id_step step)) res,
                final_answer := (if ok then res else final_answer s)\<rparr>))"

text \<open>
  The body of the \<open>while\<close> loop. The flag of the result says whether the body left the loop
  through \<open>break\<close>.
\<close>

definition loop_body :: "world \<Rightarrow> string list \<Rightarrow> run_state \<Rightarrow> fault + (bool \<times> run_state)" where
  "loop_body w ags s =
     (case get_next_step (plan s) of
        None \<Rightarrow>
          Inr (True, if has_pending (plan s) then s\<lparr>plan := mark_deadlock (plan s)\<rparr> else s)
      | Some i \<Rightarrow>
          (case execute_step w ags (s\<lparr>iteration := iteration s + 1\<rparr>) i of
             Inl e \<Rightarrow> Inl e
           | Inr (res, ok, s1) \<Rightarrow> Inr (False, after_dispatch s1 i res ok)))"

text \<open>
  The \<open>while\<close> loop of \<open>run_loop\<close>. It ends because every pass that does not leave the
  loop adds one to \<open>iteration\<close>; the four lemmas below say that nothing else touches it.
\<close>

lemma handle_install_failure_iteration:
  "handle_install_failure_with_browsing w ags s t = (b, s1) \<Longrightarrow> iteration s1 = iteration s"
  by (auto simp: handle_install_failure_with_browsing_def coder_browse_for_install_def invoke_def
      split: if_splits option.splits prod.splits outcome.splits)

lemma execute_step_iteration:
  "execute_step w ags s i = Inr (res, ok, s1) \<Longrightarrow> iteration s1 = iteration s"
  unfolding execute_step_def Let_def
  by (auto simp: invoke_def remember_def set_running_def
      split: sum.splits outcome.splits prod.splits if_splits
      dest!: handle_install_failure_iteration)

lemma after_dispatch_iteration: "iteration (after_dispatch s i res ok) = iteration s"
  by (simp add: after_dispatch_def Let_def split: prod.splits)

lemma loop_body_iteration:
  "loop_body w ags s = Inr (False, s1) \<Longrightarrow> iteration s1 = Suc (iteration s)"
  by (auto simp: loop_body_def after_dispatch_iteration
      split: option.splits sum.splits prod.splits dest!: execute_step_iteration)

function while_loop :: "world \<Rightarrow> string list \<Rightarrow> nat \<Rightarrow> run_state \<Rightarrow> fault + run_state" where
  "while_loop w ags max_iterations s =
     (if \<not> is_complete (plan s) \<and> iteration s < max_iterations then
        (case loop_body w ags s of
           Inl e \<Rightarrow> Inl e
         | Inr (True, s1) \<Rightarrow> Inr s1
         | Inr (False, s1) \<Rightarrow> while_loop w ags max_iterations s1)
      else Inr s)"
  by pat_completeness auto
termination
  by (relation "measure (\<lambda>(w, ags, max_iterations, s). max_iterations - iteration s)")
     (auto dest!: loop_body_iteration)

declare while_loop.simps [simp del]

definition initial_state :: "ExecutionPlan \<Rightarrow> mem_entry list \<Rightarrow> run_state" where
  "initial_state p mem =
     \<lparr>plan = p, execution_memory = mem, invoked = [], iteration = 0,
      consecutive_failures = 0, work_results = [], final_answer = []\<rparr>"

text \<open>
  \<open>run_loop\<close>. \<open>mem\<close> is the execution memory the orchestrator already holds.
  \<open>_visual_verification\<close> reads the file system and drives the browser; its result, the
  repair prompt or \<open>None\<close>, is the parameter \<open>visual_fix_prompt\<close>. The repair call on the
  coder stands outside any \<open>try\<close>. The value returned by the code is the summary text
  printed from the final plan, its reflection log and the final answer (with the elapsed
  time of the clock); the model returns the final state.
\<close>

definition run_loop ::
    "world \<Rightarrow> string list \<Rightarrow> string option \<Rightarrow> mem_entry list \<Rightarrow> string \<Rightarrow> agent_task list \<Rightarrow>
     fault + run_state" where
  "run_loop w ags visual_fix_prompt mem g agent_tasks =
     (let p = create_plan_from_tasks g agent_tasks;
          max_iterations = length (steps p) * 4
      in case while_loop w ags max_iterations (initial_state p mem) of
           Inl e \<Rightarrow> Inl e
         | Inr s \<Rightarrow>
             (case visual_fix_prompt of
                None \<Rightarrow> Inr s
              | Some prompt \<Rightarrow>
                  if prompt \<noteq> [] \<and> ''coder'' \<in> set ags then
                    (case invoke w ''coder'' s of
                       (Raises e, s1) \<Rightarrow> Inl (WorkerFault e)
                     | (Returns fix_answer ok, s1) \<Rightarrow>
                         Inr (if ok then s1\<lparr>final_answer := fix_answer\<rparr> else s1))
                  else Inr s))"

text \<open>
  The states a run passes through: the state before each pass of the loop, the state in
  which \<open>execute_step\<close> hands its result back (the dispatched step is \<open>running\<close>), and
  the state after each pass.
\<close>

inductive run_reaches :: "world \<Rightarrow> string list \<Rightarrow> nat \<Rightarrow> run_state \<Rightarrow> run_state \<Rightarrow> bool"
  for w ags max_iterations s0 where
  start: "run_reaches w ags max_iterations s0 s0"
| dispatched:
    "run_reaches w ags max_iterations s0 s \<Longrightarrow> \<not> is_complete (plan s) \<Longrightarrow>
     iteration s < max_iterations \<Longrightarrow> get_next_step (plan s) = Some i \<Longrightarrow>
     execute_step w ags (s\<lparr>iteration := iteration s + 1\<rparr>) i = Inr (res, ok, s1) \<Longrightarrow>
     run_reaches w ags max_iterations s0 s1"
| pass:
    "run_reaches w ags max_iterations s0 s \<Longrightarrow> \<not> is_complete (plan s) \<Longrightarrow>
     iteration s < max_iterations \<Longrightarrow> loop_body w ags s = Inr (b, s1) \<Longrightarrow>
     run_reaches w ags max_iterations s0 s1"

text \<open>
  The attempt budget of one step: the counter is within the budget, below it while the step
  is neither completed nor failed, and a failed step either used its whole budget or carries
  the deadlock error.
\<close>

definition step_budget_ok :: "TaskStep \<Rightarrow> bool" where
  "step_budget_ok st =
     (attempts st \<le> max_attempts st \<and>
      (status st \<noteq> ''completed'' \<and> status st \<noteq> ''failed'' \<longrightarrow> attempts st < max_attempts st) \<and>
      (status st = ''failed'' \<longrightarrow> attempts st = max_attempts st \<or> error st = deadlock_error))"

section \<open>Error indicators of the coder agent (code_agent.py)\<close>

definition error_indicators :: "string list" where
  "error_indicators =
     [''Error'', ''Exception'', ''Traceback'', ''SyntaxError'',
      ''NameError'', ''TypeError'', ''ValueError'', ''ImportError'',
      ''ModuleNotFoundError'', ''AttributeError'', ''KeyError'',
      ''IndexError'', ''FileNotFoundError'', ''PermissionError'',
      ''RuntimeError'', ''OSError'', ''IOError'', ''ZeroDivisionError'',
      ''IndentationError'', ''UnboundLocalError'']"

text \<open>
  \<open>_has_error_in_output\<close>; the feedback may be absent (\<open>None\<close>), which \<open>not feedback\<close>
  treats like the empty string.
\<close>

fun any_indicator :: "string list \<Rightarrow> string \<Rightarrow> bool" where
  "any_indicator [] feedback = False"
| "any_indicator (indicator # rest) feedback =
     (if contains feedback indicator then True else any_indicator rest feedback)"

definition has_error_in_output :: "string option \<Rightarrow> bool" where
  "has_error_in_output feedback =
     (case feedback of
        None \<Rightarrow> False
      | Some fb \<Rightarrow> if fb = [] then False else any_indicator error_indicators fb)"

section \<open>The coder agent's self-correction loop (code_agent.py)\<close>

text \<open>
  The collaborators of the loop are parameters, indexed by the number of the correction
  attempt that calls them (each is called at most once per attempt): the language model's
  answer, the execution of an answer (\<open>execute_modules_with_sandbox\<close> or
  \<open>execute_modules\<close>: success flag, feedback, and the modules it installed on the way),
  \<open>terminal.install_package\<close> and the browse worker. \<open>events\<close> is a history variable.
\<close>

record coder_env =
  llm_request :: "nat \<Rightarrow> string"
  execute_modules :: "nat \<Rightarrow> string \<Rightarrow> bool \<times> string \<times> string list"
  install_package :: "nat \<Rightarrow> string \<Rightarrow> bool"
  browser_process :: "nat \<Rightarrow> string \<Rightarrow> outcome"

datatype event = InstallPackage string bool | BrowseHelp string | LlmRequest nat | Execute nat

record coder =
  installed_packages :: "string list"
  browser_agent :: bool
  self_correction_max :: nat
  events :: "event list"

definition is_quote :: "char \<Rightarrow> bool" where
  "is_quote c = (c = CHR 0x27 \<or> c = CHR 0x22)"

text \<open>
  The pattern \<^verbatim>\<open>No module named ['"]([^'"]+)['"]\<close> anchored at the start of its argument:
  a quote, the longest run of characters that are not quotes (not empty), a quote.
\<close>

definition match_quoted_module_at :: "string \<Rightarrow> string option" where
  "match_quoted_module_at s =
     (if startswith s ''No module named '' then
        (case drop (length ''No module named '') s of
           [] \<Rightarrow> None
         | c # cs \<Rightarrow>
             if is_quote c \<and> takeWhile (\<lambda>x. \<not> is_quote x) cs \<noteq> [] \<and>
                dropWhile (\<lambda>x. \<not> is_quote x) cs \<noteq> []
             then Some (takeWhile (\<lambda>x. \<not> is_quote x) cs) else None)
      else None)"

definition first_component :: "string \<Rightarrow> string" where
  "first_component g = takeWhile (\<lambda>x. x \<noteq> CHR ''.'') g"

definition pkg_map :: "(string \<times> string) list" where
  "pkg_map =
     [(''bs4'', ''beautifulsoup4''), (''cv2'', ''opencv-python''), (''PIL'', ''Pillow''),
      (''sklearn'', ''scikit-learn''), (''yaml'', ''pyyaml''), (''dotenv'', ''python-dotenv''),
      (''gi'', ''PyGObject''), (''lxml'', ''lxml''), (''matplotlib'', ''matplotlib''),
      (''pandas'', ''pandas''), (''scipy'', ''scipy''), (''seaborn'', ''seaborn'')]"

definition auto_install_from_error :: "coder_env \<Rightarrow> nat \<Rightarrow> coder \<Rightarrow> string \<Rightarrow> bool \<times> coder" where
  "auto_install_from_error env n c error_text =
     (case re_search match_quoted_module_at error_text of
        None \<Rightarrow> (False, c)
      | Some g \<Rightarrow>
          (let module_name = first_component g
           in if module_name \<in> set (installed_packages c) then (False, c)
              else
                (let pkg_name = (case map_of pkg_map module_name of
                                   Some q \<Rightarrow> q | None \<Rightarrow> module_name)
                 in if install_package env n pkg_name then
                      (True, c\<lparr>installed_packages := installed_packages c @ [module_name],
                                events := events c @ [InstallPackage pkg_name True]\<rparr>)
                    else (False, c\<lparr>events := events c @ [InstallPackage pkg_name False]\<rparr>))))"

definition browse_for_install_help :: "coder_env \<Rightarrow> nat \<Rightarrow> coder \<Rightarrow> string \<Rightarrow> string \<times> coder" where
  "browse_for_install_help env n c package_name =
     (if \<not> browser_agent c then ([], c)
      else
        (let c1 = c\<lparr>events := events c @ [BrowseHelp package_name]\<rparr>
         in case browser_process env n package_name of
              Returns answer ok \<Rightarrow> (take 1000 answer, c1)
            | Raises e \<Rightarrow> ([], c1)))"

text \<open>
  The first part of a correction attempt, lines 391 to 400: the result is \<open>browser_info\<close>.
\<close>

definition remediate :: "coder_env \<Rightarrow> nat \<Rightarrow> coder \<Rightarrow> string \<Rightarrow> string \<times> coder" where
  "remediate env n c current_feedback =
     (let feedback_lower = lower current_feedback
      in if contains feedback_lower ''no module named'' \<or>
            contains feedback_lower ''modulenotfounderror'' then
           (case re_search match_quoted_module_at current_feedback of
              None \<Rightarrow> ([], c)
            | Some g \<Rightarrow>
                (case auto_install_from_error env n c current_feedback of
                   (install_ok, c1) \<Rightarrow>
                     if \<not> install_ok \<and> browser_agent c1
                     then browse_for_install_help env n c1 (first_component g)
                     else ([], c1)))
         else ([], c))"

definition code_fence :: string where
  "code_fence = [CHR 0x60, CHR 0x60, CHR 0x60]"

lemma remediate_self_correction_max:
  "remediate env n c fb = (info, c1) \<Longrightarrow> self_correction_max c1 = self_correction_max c"
  by (auto simp: remediate_def auto_install_from_error_def browse_for_install_help_def Let_def
      split: if_splits option.splits prod.splits outcome.splits)

text \<open>
  The loop of \<open>_self_correct_execution\<close>, from the state in which \<open>correction_attempt\<close>
  attempts were made. The correction prompt (which embeds \<open>browser_info\<close>) goes to the
  language model only.
\<close>

function self_correct_loop ::
    "coder_env \<Rightarrow> coder \<Rightarrow> nat \<Rightarrow> string \<Rightarrow> string \<Rightarrow> (bool \<times> string \<times> string) \<times> coder" where
  "self_correct_loop env c correction_attempt current_feedback last_answer =
     (if correction_attempt < self_correction_max c then
        (let n = correction_attempt + 1
         in case remediate env n c current_feedback of
              (browser_info, c1) \<Rightarrow>
                (let c2 = c1\<lparr>events := events c1 @ [LlmRequest n]\<rparr>;
                     answer = llm_request env n
                 in if \<not> contains answer code_fence
                    then self_correct_loop env c2 n current_feedback last_answer
                    else
                      (case execute_modules env n answer of
                         (exec_success, feedback, installs) \<Rightarrow>
                           (let c3 = c2\<lparr>events := events c2 @ [Execute n],
                                         installed_packages := installed_packages c2 @ installs\<rparr>
                            in if exec_success \<and> \<not> has_error_in_output (Some feedback)
                               then ((True, answer, feedback), c3)
                               else self_correct_loop env c3 n feedback answer))))
      else ((False, last_answer, current_feedback), c))"
  by pat_completeness auto
termination
  by (relation "measure (\<lambda>(env, c, k, fb, a). self_correction_max c - k)")
     (auto dest!: remediate_self_correction_max [OF sym])

declare self_correct_loop.simps [simp del]

definition self_correct_execution ::
    "coder_env \<Rightarrow> coder \<Rightarrow> string \<Rightarrow> string \<Rightarrow> (bool \<times> string \<times> string) \<times> coder" where
  "self_correct_execution env c original_answer error_feedback =
     self_correct_loop env c 0 error_feedback original_answer"

section \<open>Concrete plans used below\<close>

definition plan_of :: "TaskStep list \<Rightarrow> ExecutionPlan" where
  "plan_of ss =
     \<lparr>goal = ''build X'', steps = ss, current_step = 0, completed = False, reflection_log = []\<rparr>"

text \<open>Steps A (no dependencies) and B (depends on A), both pending.\<close>

definition plan_ab :: ExecutionPlan where
  "plan_ab =
     plan_of [new_step 1 ''write a.py'' ''coder'' 3 [],
              new_step 2 ''write b.py'' ''coder'' 3 [''1'']]"

text \<open>A completed; B depends on A and on an identifier, 7, that no step has.\<close>

definition plan_done_7 :: ExecutionPlan where
  "plan_done_7 =
     plan_of [(new_step 1 ''write a.py'' ''coder'' 3 [])\<lparr>status := ''completed''\<rparr>,
              new_step 2 ''write b.py'' ''coder'' 3 [''1'', ''7'']]"

text \<open>One pending step A whose only dependency, 99, is no step of the plan.\<close>

definition plan_99 :: ExecutionPlan where
  "plan_99 = plan_of [new_step 1 ''write a.py'' ''coder'' 3 [''99'']]"

text \<open>Task lists as \<open>run_loop\<close> receives them, and three worker behaviours.\<close>

definition task_file :: agent_task where
  "task_file =
     \<lparr>task_name = ''t1'', task = Some ''list the files'', agent = Some ''file'', need = None\<rparr>"

definition task_99 :: agent_task where
  "task_99 =
     \<lparr>task_name = ''t1'', task = Some ''write a.py'', agent = Some ''coder'',
      need = Some (NeedList [''99''])\<rparr>"

definition task_a :: agent_task where
  "task_a =
     \<lparr>task_name = ''t1'', task = Some ''write a.py'', agent = Some ''coder'', need = None\<rparr>"

definition task_b :: agent_task where
  "task_b =
     \<lparr>task_name = ''t2'', task = Some ''write b.py'', agent = Some ''coder'',
      need = Some (NeedStr ''1'')\<rparr>"

definition w_ok :: world where
  "w_ok n key = Returns ''done'' True"

definition w_fail :: world where
  "w_fail n key = Returns ''boom'' False"

definition w_raise :: world where
  "w_raise n key = Raises ''connection reset''"

text \<open>
  A coder that fails on a missing module, a browse worker that answers, and a coder that
  succeeds when invoked again.
\<close>

definition module_error :: string where
  "module_error =
     ''ModuleNotFoundError: No module named '' @ [CHR 0x27] @ ''requests'' @ [CHR 0x27]"

definition w_retry :: world where
  "w_retry n key =
     (if n = 0 then Returns module_error False
      else if n = 1 then Returns ''Run: pip install requests'' True
      else Returns ''done'' True)"

text \<open>
  A failed step whose error names a missing module, and a state of the run after three
  consecutive failures in which the one pending step has one attempt left.
\<close>

definition failed_requests :: TaskStep where
  "failed_requests =
     (new_step 1 ''fetch the page'' ''coder'' 3 [])
       \<lparr>status := ''failed'', attempts := 3,
        error := ''ModuleNotFoundError: No module named '' @ [CHR 0x27] @ ''requests'' @ [CHR 0x27]\<rparr>"

definition state_three_failures :: run_state where
  "state_three_failures =
     (initial_state
        (plan_of [(new_step 1 ''write a.py'' ''coder'' 3 [])
                    \<lparr>status := ''failed'', attempts := 3, error := ''boom''\<rparr>,
                  (new_step 2 ''write b.py'' ''coder'' 3 [])
                    \<lparr>attempts := 2, error := ''boom''\<rparr>]) [])
       \<lparr>iteration := 5, consecutive_failures := 5\<rparr>"

text \<open>A state of the run in which A has failed for good and B waits for A.\<close>

definition state_blocked :: run_state where
  "state_blocked =
     (initial_state
        (plan_of [(new_step 1 ''write a.py'' ''coder'' 3 [])
                    \<lparr>status := ''failed'', attempts := 3, error := ''boom''\<rparr>,
                  new_step 2 ''write b.py'' ''coder'' 3 [''1'']]) [])
       \<lparr>iteration := 3, consecutive_failures := 3\<rparr>"

text \<open>
  The scheduler's readiness as the specification words it: every dependency identifier
  resolves to a step, and that step is completed.
\<close>

definition spec_ready :: "TaskStep list \<Rightarrow> TaskStep \<Rightarrow> bool" where
  "spec_ready ss s =
     (status s = ''pending'' \<and>
      list_all (\<lambda>d. case find_dep ss d of Some t \<Rightarrow> status t = ''completed'' | None \<Rightarrow> False)
        (dependencies s))"

lemmas plan_eval =
  get_next_step_def ready_def find_dep_def str_int_def str_nat.simps digit_char_def
  new_step_def plan_of_def

lemmas run_eval =
  run_loop_def create_plan_from_tasks_def task_step_def task_deps_def new_step_def
  initial_state_def while_loop.simps is_complete_def loop_body_def get_next_step_def ready_def
  find_dep_def str_int_def str_nat.simps digit_char_def execute_step_def set_running_def
  resolve_agent_def lower_def lower_char_def startswith_def invoke_def remember_def
  memory_entry_def handle_install_failure_with_browsing_def install_signature_def
  after_dispatch_def reflect_def reflect_step_def has_pending_def mark_deadlock_def
  Let_def

section \<open>Substring tests\<close>

lemma startswith_iff: "startswith s p = (\<exists>post. s = p @ post)"
  unfolding startswith_def
  by (metis append_eq_conv_conj append_take_drop_id)

lemma contains_iff: "contains s sub = (\<exists>pre post. s = pre @ sub @ post)"
proof (induction s)
  case Nil
  then show ?case by auto
next
  case (Cons c cs)
  show ?case
  proof
    assume "contains (c # cs) sub"
    then consider "startswith (c # cs) sub" | "contains cs sub" by auto
    then show "\<exists>pre post. c # cs = pre @ sub @ post"
    proof cases
      case 1
      then obtain post where "c # cs = sub @ post" by (auto simp: startswith_iff)
      then have "c # cs = [] @ sub @ post" by simp
      then show ?thesis by blast
    next
      case 2
      then obtain pre post where "cs = pre @ sub @ post" using Cons.IH by auto
      then have "c # cs = (c # pre) @ sub @ post" by simp
      then show ?thesis by blast
    qed
  next
    assume "\<exists>pre post. c # cs = pre @ sub @ post"
    then obtain pre post where e: "c # cs = pre @ sub @ post" by auto
    show "contains (c # cs) sub"
    proof (cases pre)
      case Nil
      then have "startswith (c # cs) sub" using e by (auto simp: startswith_iff)
      then show ?thesis by simp
    next
      case (Cons a pre')
      then have "cs = pre' @ sub @ post" using e by simp
      then have "contains cs sub" using Cons.IH by blast
      then show ?thesis by simp
    qed
  qed
qed

lemma any_indicator_iff: "any_indicator inds fb = (\<exists>ind \<in> set inds. contains fb ind)"
  by (induction inds) auto

text \<open>
  C10. \<open>_has_error_in_output\<close> is case-sensitive substring matching over a fixed list of 20
  indicator tokens: it is true exactly when the feedback contains one of them. Absent and
  empty feedback are not failing, and neither is feedback that says \<open>error\<close> in lower case
  only.
\<close>

theorem has_error_in_output_substring:
  "length error_indicators = 20 \<and>
   has_error_in_output (Some fb) =
     (\<exists>ind \<in> set error_indicators. \<exists>pre post. fb = pre @ ind @ post) \<and>
   has_error_in_output None = False \<and>
   has_error_in_output (Some []) = False \<and>
   has_error_in_output (Some ''error'') = False \<and>
   has_error_in_output (Some ''an error occurred, the task failed'') = False \<and>
   has_error_in_output (Some ''KeyError: 1'') = True"
proof -
  have n: "length error_indicators = 20"
    by (simp add: error_indicators_def)
  have e: "[] \<notin> set error_indicators"
    by (simp add: error_indicators_def)
  have "has_error_in_output (Some fb) = (\<exists>ind \<in> set error_indicators. contains fb ind)"
  proof (cases "fb = []")
    case True
    then show ?thesis using e by (auto simp: has_error_in_output_def)
  next
    case False
    then show ?thesis by (simp add: has_error_in_output_def any_indicator_iff)
  qed
  then have s: "has_error_in_output (Some fb) =
      (\<exists>ind \<in> set error_indicators. \<exists>pre post. fb = pre @ ind @ post)"
    by (simp add: contains_iff)
  have l: "has_error_in_output (Some ''error'') = False"
    by (simp add: has_error_in_output_def error_indicators_def startswith_def)
  have m: "has_error_in_output (Some ''an error occurred, the task failed'') = False"
    by (simp add: has_error_in_output_def error_indicators_def startswith_def)
  have k: "has_error_in_output (Some ''KeyError: 1'') = True"
    by (simp add: has_error_in_output_def error_indicators_def startswith_def)
  show ?thesis
    using n s l m k by (simp add: has_error_in_output_def)
qed

section \<open>The dependency scheduler\<close>

lemma deps_met_iff:
  "deps_met ss ds =
   (\<forall>d \<in> set ds. find_dep ss d = None \<or> (\<exists>t. find_dep ss d = Some t \<and> status t = ''completed''))"
  by (induction ds) (auto split: option.splits)

lemma scan_steps_Some:
  "(scan_steps ss k xs = Some i) =
   (\<exists>m. i = k + m \<and> m < length xs \<and> ready ss (xs ! m) \<and> (\<forall>j < m. \<not> ready ss (xs ! j)))"
proof (induction xs arbitrary: k)
  case Nil
  then show ?case by simp
next
  case (Cons x xs)
  show ?case
  proof (cases "ready ss x")
    case True
    have "(\<exists>m. i = k + m \<and> m < length (x # xs) \<and> ready ss ((x # xs) ! m) \<and>
          (\<forall>j < m. \<not> ready ss ((x # xs) ! j))) = (i = k)"
    proof
      assume "\<exists>m. i = k + m \<and> m < length (x # xs) \<and> ready ss ((x # xs) ! m) \<and>
          (\<forall>j < m. \<not> ready ss ((x # xs) ! j))"
      then obtain m where m: "i = k + m" "\<forall>j < m. \<not> ready ss ((x # xs) ! j)" by blast
      have "m = 0"
      proof (rule ccontr)
        assume "m \<noteq> 0"
        then have "\<not> ready ss ((x # xs) ! 0)" using m(2) by blast
        then show False using True by simp
      qed
      then show "i = k" using m(1) by simp
    next
      assume "i = k"
      then show "\<exists>m. i = k + m \<and> m < length (x # xs) \<and> ready ss ((x # xs) ! m) \<and>
          (\<forall>j < m. \<not> ready ss ((x # xs) ! j))"
        using True by (intro exI[of _ 0]) simp
    qed
    then show ?thesis using True by auto
  next
    case False
    show ?thesis
    proof
      assume "scan_steps ss k (x # xs) = Some i"
      then have "scan_steps ss (Suc k) xs = Some i" using False by simp
      then obtain m where m: "i = Suc k + m" "m < length xs" "ready ss (xs ! m)"
          "\<forall>j < m. \<not> ready ss (xs ! j)" using Cons.IH by blast
      have "\<forall>j < Suc m. \<not> ready ss ((x # xs) ! j)"
        using m(4) False by (auto simp: nth_Cons split: nat.splits)
      then show "\<exists>m. i = k + m \<and> m < length (x # xs) \<and> ready ss ((x # xs) ! m) \<and>
          (\<forall>j < m. \<not> ready ss ((x # xs) ! j))"
        using m(1,2,3) by (intro exI[of _ "Suc m"]) simp
    next
      assume "\<exists>m. i = k + m \<and> m < length (x # xs) \<and> ready ss ((x # xs) ! m) \<and>
          (\<forall>j < m. \<not> ready ss ((x # xs) ! j))"
      then obtain m where m: "i = k + m" "m < length (x # xs)" "ready ss ((x # xs) ! m)"
          "\<forall>j < m. \<not> ready ss ((x # xs) ! j)" by blast
      from m(3) False obtain m' where m': "m = Suc m'" by (cases m) auto
      have "\<forall>j < m'. \<not> ready ss (xs ! j)"
      proof (intro allI impI)
        fix j assume "j < m'"
        then have "Suc j < m" using m' by simp
        then have "\<not> ready ss ((x # xs) ! Suc j)" using m(4) by blast
        then show "\<not> ready ss (xs ! j)" by simp
      qed
      then have "scan_steps ss (Suc k) xs = Some i"
        using m m' Cons.IH[of "Suc k"] by auto
      then show "scan_steps ss k (x # xs) = Some i" using False by simp
    qed
  qed
qed

lemma scan_steps_None:
  "(scan_steps ss k xs = None) = (\<forall>m < length xs. \<not> ready ss (xs ! m))"
proof (induction xs arbitrary: k)
  case Nil
  then show ?case by simp
next
  case (Cons x xs)
  then show ?case by (auto simp: nth_Cons less_Suc_eq_0_disj split: nat.splits)
qed

lemma get_next_step_Some:
  "(get_next_step p = Some i) =
   (i < length (steps p) \<and> ready (steps p) (steps p ! i) \<and>
    (\<forall>j < i. \<not> ready (steps p) (steps p ! j)))"
  by (auto simp: get_next_step_def scan_steps_Some)

lemma get_next_step_None:
  "(get_next_step p = None) = (\<forall>i < length (steps p). \<not> ready (steps p) (steps p ! i))"
  by (simp add: get_next_step_def scan_steps_None)

text \<open>
  C4, as the specification states it, fails: the scheduler returns step B of
  \<open>plan_done_7\<close> although B's dependency 7 resolves to no step, so B is not a step whose
  every dependency identifier resolves to a completed step (and no step of that plan is).
\<close>

theorem next_step_unresolved_dependency_counterexample:
  "get_next_step plan_done_7 = Some 1 \<and>
   \<not> spec_ready (steps plan_done_7) (steps plan_done_7 ! 1) \<and>
   \<not> list_ex (spec_ready (steps plan_done_7)) (steps plan_done_7)"
  by (simp add: plan_eval plan_done_7_def spec_ready_def)

text \<open>
  C4, amended. \<open>get_next_step\<close> returns the first step in plan order that is pending and
  each of whose dependency identifiers either resolves to no step of the plan or resolves
  (to the first step with that identifier, and that step) is completed; it returns none
  exactly when there is no such step. So it never returns a step that has a dependency
  resolving to a step that is not completed. The function is a query: its only result is
  the returned position, the plan is not changed.
\<close>

theorem get_next_step_first_ready:
  "(get_next_step p = Some i) =
     (i < length (steps p) \<and> ready (steps p) (steps p ! i) \<and>
      (\<forall>j < i. \<not> ready (steps p) (steps p ! j))) \<and>
   (get_next_step p = None) = (\<forall>k < length (steps p). \<not> ready (steps p) (steps p ! k)) \<and>
   ready ss s =
     (status s = ''pending'' \<and>
      (\<forall>d \<in> set (dependencies s).
         find_dep ss d = None \<or> (\<exists>t. find_dep ss d = Some t \<and> status t = ''completed''))) \<and>
   (get_next_step p = Some i \<and> d \<in> set (dependencies (steps p ! i)) \<and>
    find_dep (steps p) d = Some t \<longrightarrow> status t = ''completed'')"
proof (intro conjI impI)
  show "(get_next_step p = Some i) =
     (i < length (steps p) \<and> ready (steps p) (steps p ! i) \<and>
      (\<forall>j < i. \<not> ready (steps p) (steps p ! j)))"
    by (rule get_next_step_Some)
  show "(get_next_step p = None) = (\<forall>k < length (steps p). \<not> ready (steps p) (steps p ! k))"
    by (rule get_next_step_None)
  show "ready ss s =
     (status s = ''pending'' \<and>
      (\<forall>d \<in> set (dependencies s).
         find_dep ss d = None \<or> (\<exists>t. find_dep ss d = Some t \<and> status t = ''completed'')))"
    by (simp add: ready_def deps_met_iff)
  assume a: "get_next_step p = Some i \<and> d \<in> set (dependencies (steps p ! i)) \<and>
    find_dep (steps p) d = Some t"
  then have "ready (steps p) (steps p ! i)"
    by (simp add: get_next_step_Some)
  then have "deps_met (steps p) (dependencies (steps p ! i))"
    by (simp add: ready_def)
  then have all: "\<forall>d \<in> set (dependencies (steps p ! i)).
      find_dep (steps p) d = None \<or>
      (\<exists>t. find_dep (steps p) d = Some t \<and> status t = ''completed'')"
    by (simp only: deps_met_iff)
  have d: "d \<in> set (dependencies (steps p ! i))"
    using a by (rule_tac conjunct1 [OF conjunct2])
  have f: "find_dep (steps p) d = Some t"
    using a by (rule_tac conjunct2 [OF conjunct2])
  from all d have "find_dep (steps p) d = None \<or>
      (\<exists>t. find_dep (steps p) d = Some t \<and> status t = ''completed'')"
    by (rule bspec)
  then show "status t = ''completed''"
    unfolding f by simp
qed

text \<open>
  In \<open>plan_ab\<close> the scheduler returns A (position 0); B, which depends on the pending A,
  is not ready.
\<close>

theorem get_next_step_first_ready_witness:
  "get_next_step plan_ab = Some 0 \<and> 0 < length (steps plan_ab) \<and>
   ready (steps plan_ab) (steps plan_ab ! 0) \<and> \<not> ready (steps plan_ab) (steps plan_ab ! 1)"
proof -
  have "get_next_step plan_ab = Some 0"
    by (simp add: plan_eval plan_ab_def)
  moreover have "\<not> ready (steps plan_ab) (steps plan_ab ! 1)"
    by (simp add: plan_eval plan_ab_def)
  ultimately show ?thesis
    using get_next_step_first_ready [of plan_ab 0, THEN conjunct1] by simp
qed

section \<open>Worker resolution and faults that leave the dispatcher\<close>

lemma find_in_set: "find P xs = Some x \<Longrightarrow> x \<in> set xs"
  by (induction xs) (auto split: if_splits)

lemma resolve_agent_registered: "resolve_agent ags tag = Inr key \<Longrightarrow> key \<in> set ags"
  by (simp add: resolve_agent_def Let_def split: if_splits)

text \<open>With a worker registered under \<open>coder\<close> the resolution does produce a worker.\<close>

lemma resolve_agent_with_coder:
  "''coder'' \<in> set ags \<Longrightarrow> \<exists>key. resolve_agent ags tag = Inr key"
  unfolding resolve_agent_def Let_def
  by (cases "find (\<lambda>key. startswith key (take 3 (lower tag))) ags")
     (simp_all add: find_in_set)

text \<open>
  C8. The claim is that worker resolution produces a worker for every step and every
  registry. The code falls back to the key \<open>coder\<close> without testing that it is
  registered: for the registry with the single key \<open>web\<close> and a step tagged \<open>file\<close>
  there is no exact match and no key starting with \<open>fil\<close>, and the lookup
  \<open>self.agents["coder"]\<close> raises \<open>KeyError\<close>. The lookup stands before the \<open>try\<close> of
  \<open>execute_step\<close>, so the dispatcher raises, whatever the workers do.
\<close>

theorem resolve_agent_fallback_unregistered:
  "resolve_agent [''web''] ''file'' = Inl (KeyError ''coder'') \<and>
   execute_step w [''web'']
     (initial_state (create_plan_from_tasks ''build X'' [task_file]) []) 0 =
     Inl (KeyError ''coder'')"
  by (simp add: run_eval task_file_def)

text \<open>
  C9. The claim is that a run never lets an unhandled fault escape. The same missing test
  as in C8 breaks it: a run over the registry with the single key \<open>web\<close> and one task
  for the \<open>file\<close> worker ends in the \<open>KeyError\<close> of the registry lookup, which no
  handler of \<open>execute_step\<close> or \<open>run_loop\<close> catches, and returns no summary.
\<close>

theorem run_loop_fault_escapes:
  "run_loop w [''web''] None [] ''build X'' [task_file] = Inl (KeyError ''coder'')"
  by (simp add: run_eval task_file_def)

section \<open>Plan revision\<close>

lemma revise_plan_not_None: "revise_plan (Some p) st \<noteq> None"
  by (simp add: revise_plan_def Let_def split: prod.splits)

lemma revise_plan_Some:
  "\<exists>q. revise_plan (Some p) st = Some q \<and> length (steps p) < length (steps q)"
  by (simp add: revise_plan_def Let_def split: prod.splits)

text \<open>
  C6. When \<open>revise_plan\<close> is called with a failed step whose error text falls in the
  missing-dependency category, it appends exactly two steps to the plan and changes nothing
  else: first a browse step (worker \<open>web\<close>, attempt budget 2, the failed step's
  dependencies), then a retry step (worker \<open>coder\<close>, attempt budget 2, depending exactly on
  the browse step's identifier), whose description contains the original task, the
  instruction to use a different approach, and the prior error cut at 500 characters.
\<close>

theorem revise_plan_missing_dependency:
  assumes "missing_dependency_error (lower (error failed_step))"
  shows "revise_plan (Some p) failed_step =
      Some (p\<lparr>steps := steps p @
        [new_step (int (length (steps p)) + 1)
           (browse_description (missing_module_name (lower (error failed_step)))) ''web'' 2
           (dependencies failed_step),
         new_step (int (length (steps p)) + 2)
           (install_recovery_description (missing_module_name (lower (error failed_step)))
              failed_step @ error_suffix failed_step)
           ''coder'' 2 [str_int (int (length (steps p)) + 1)]]\<rparr>) \<and>
    contains
      (install_recovery_description (missing_module_name (lower (error failed_step)))
         failed_step @ error_suffix failed_step)
      (description failed_step) \<and>
    contains
      (install_recovery_description (missing_module_name (lower (error failed_step)))
         failed_step @ error_suffix failed_step)
      ''Gunakan pendekatan BERBEDA'' \<and>
    contains
      (install_recovery_description (missing_module_name (lower (error failed_step)))
         failed_step @ error_suffix failed_step)
      (take 500 (if error failed_step = [] then ''Unknown error'' else error failed_step))"
proof -
  define m where "m = missing_module_name (lower (error failed_step))"
  let ?d = "install_recovery_description m failed_step @ error_suffix failed_step"
  let ?e = "take 500 (if error failed_step = [] then ''Unknown error'' else error failed_step)"
  have r: "revise_plan (Some p) failed_step =
      Some (p\<lparr>steps := steps p @
        [new_step (int (length (steps p)) + 1) (browse_description m) ''web'' 2
           (dependencies failed_step),
         new_step (int (length (steps p)) + 2) ?d
           ''coder'' 2 [str_int (int (length (steps p)) + 1)]]\<rparr>)"
    using assms by (simp add: revise_plan_def Let_def m_def new_step_def)
  have "?d = (''[RECOVERY - INSTALL DEPENDENCY WITH BROWSER INFO] '' @
     ''Gunakan informasi dari langkah browsing sebelumnya untuk install '' @ sq @ m @
     sq @ ''. '' @ ''Lalu ulangi tugas asli: '') @ description failed_step @
     error_suffix failed_step"
    by (simp add: install_recovery_description_def)
  then have c1: "contains ?d (description failed_step)"
    unfolding contains_iff by blast
  have "?d = (install_recovery_description m failed_step @ nl @ nl @ ''ERROR SEBELUMNYA:'' @
     nl @ ?e @ nl @ ''INSTRUKSI: '') @ ''Gunakan pendekatan BERBEDA'' @
     (''. Jangan ulangi cara yang sama. '' @
      ''Kamu dilarang meminta klarifikasi, langsung eksekusi.'')"
    by (simp add: error_suffix_def)
  then have c2: "contains ?d ''Gunakan pendekatan BERBEDA''"
    unfolding contains_iff by blast
  have "?d = (install_recovery_description m failed_step @ nl @ nl @ ''ERROR SEBELUMNYA:'' @
     nl) @ ?e @ (nl @
     ''INSTRUKSI: Gunakan pendekatan BERBEDA. Jangan ulangi cara yang sama. '' @
     ''Kamu dilarang meminta klarifikasi, langsung eksekusi.'')"
    by (simp add: error_suffix_def)
  then have c3: "contains ?d ?e"
    unfolding contains_iff by blast
  show ?thesis
    using r c1 c2 c3 unfolding m_def by (intro conjI)
qed

text \<open>
  The failed step of \<open>failed_requests\<close> in the plan of A and B: steps 3 (browse, for
  \<open>requests\<close>) and 4 (retry, depending on 3) are appended, A and B stay as they were.
\<close>

theorem revise_plan_missing_dependency_witness:
  "missing_dependency_error (lower (error failed_requests)) \<and>
   (\<exists>q. revise_plan (Some plan_ab) failed_requests = Some q \<and>
      take 2 (steps q) = steps plan_ab \<and>
      map id_step (drop 2 (steps q)) = [3, 4] \<and>
      map agent_type (drop 2 (steps q)) = [''web'', ''coder''] \<and>
      map max_attempts (drop 2 (steps q)) = [2, 2] \<and>
      map dependencies (drop 2 (steps q)) = [[], [''3'']] \<and>
      missing_module_name (lower (error failed_requests)) = ''requests'')"
proof -
  have h: "missing_dependency_error (lower (error failed_requests))"
    by (simp add: missing_dependency_error_def failed_requests_def new_step_def lower_def
        lower_char_def startswith_def)
  have n: "missing_module_name (lower (error failed_requests)) = ''requests''"
    by (simp add: missing_module_name_def match_module_at_def failed_requests_def new_step_def
        lower_def lower_char_def startswith_def is_word_char_def Let_def)
  have d: "dependencies failed_requests = []"
    by (simp add: failed_requests_def new_step_def)
  have l: "steps plan_ab = [new_step 1 ''write a.py'' ''coder'' 3 [],
      new_step 2 ''write b.py'' ''coder'' 3 [''1'']]"
    by (simp add: plan_ab_def plan_of_def)
  have i: "str_int 3 = ''3''"
    by (simp add: str_int_def str_nat.simps digit_char_def)
  from revise_plan_missing_dependency [OF h, of plan_ab, THEN conjunct1]
  have "\<exists>q. revise_plan (Some plan_ab) failed_requests = Some q \<and>
      take 2 (steps q) = steps plan_ab \<and>
      map id_step (drop 2 (steps q)) = [3, 4] \<and>
      map agent_type (drop 2 (steps q)) = [''web'', ''coder''] \<and>
      map max_attempts (drop 2 (steps q)) = [2, 2] \<and>
      map dependencies (drop 2 (steps q)) = [[], [''3'']]"
    by (simp add: l d i new_step_def)
  with h n show ?thesis by simp
qed

section \<open>What the dispatcher leaves unchanged\<close>

lemma handle_install_failure_frame:
  "handle_install_failure_with_browsing w ags s t = (b, s1) \<Longrightarrow>
   plan s1 = plan s \<and> consecutive_failures s1 = consecutive_failures s \<and>
   execution_memory s1 = execution_memory s"
  by (auto simp: handle_install_failure_with_browsing_def coder_browse_for_install_def invoke_def
      split: if_splits option.splits prod.splits outcome.splits)

lemma execute_step_frame:
  "execute_step w ags s i = Inr (res, ok, s1) \<Longrightarrow>
   plan s1 = plan (set_running i s) \<and> consecutive_failures s1 = consecutive_failures s"
  unfolding execute_step_def Let_def
  by (auto simp: invoke_def remember_def set_running_def
      split: sum.splits outcome.splits prod.splits if_splits
      dest!: handle_install_failure_frame)

lemma length_steps_reflect: "length (steps (snd (reflect p i res ok))) = length (steps p)"
  by (simp add: reflect_def split: prod.splits)

lemma after_dispatch_counter:
  "consecutive_failures (after_dispatch s i res ok) =
   (if ok then 0 else consecutive_failures s + 1)"
  by (simp add: after_dispatch_def Let_def split: prod.splits)

lemma after_dispatch_plan:
  "plan (after_dispatch s i res ok) =
    (let p1 = snd (reflect (plan s) i res ok)
     in if \<not> ok \<and> status (steps p1 ! i) = ''failed'' \<and> consecutive_failures s + 1 < 3
        then the (revise_plan (Some p1) (steps p1 ! i)) else p1)"
  by (auto simp add: after_dispatch_def Let_def revise_plan_not_None
      split: prod.splits option.splits)

text \<open>
  C5. In a pass of the loop that dispatches step \<open>i\<close> and gets \<open>(res, ok)\<close> back, the
  consecutive-failure counter becomes zero on success and one more on failure; the plan
  after the pass is the reflected plan, revised exactly when the dispatch failed, the step
  is now failed and the new counter is below 3. So the number of steps changes only through
  such a revision, and a failure that follows three or more consecutive failures adds no
  step.
\<close>

theorem revision_circuit_breaker:
  assumes "get_next_step (plan s) = Some i"
    and "execute_step w ags (s\<lparr>iteration := iteration s + 1\<rparr>) i = Inr (res, ok, s2)"
  shows "\<exists>s1 p1.
     loop_body w ags s = Inr (False, s1) \<and>
     p1 = snd (reflect (plan s2) i res ok) \<and>
     consecutive_failures s1 = (if ok then 0 else consecutive_failures s + 1) \<and>
     plan s1 =
       (if \<not> ok \<and> status (steps p1 ! i) = ''failed'' \<and> consecutive_failures s1 < 3
        then the (revise_plan (Some p1) (steps p1 ! i)) else p1) \<and>
     (length (steps (plan s1)) \<noteq> length (steps (plan s)) \<longrightarrow>
        \<not> ok \<and> status (steps p1 ! i) = ''failed'' \<and> consecutive_failures s1 < 3) \<and>
     (\<not> ok \<and> 3 \<le> consecutive_failures s \<longrightarrow>
        plan s1 = p1 \<and> length (steps (plan s1)) = length (steps (plan s)))"
proof -
  define s1 where "s1 = after_dispatch s2 i res ok"
  define p1 where "p1 = snd (reflect (plan s2) i res ok)"
  define g where "g = (\<not> ok \<and> status (steps p1 ! i) = ''failed'' \<and> consecutive_failures s1 < 3)"
  have b: "loop_body w ags s = Inr (False, s1)"
    using assms by (simp add: loop_body_def s1_def)
  have f: "plan s2 = plan (set_running i (s\<lparr>iteration := iteration s + 1\<rparr>))"
      "consecutive_failures s2 = consecutive_failures s"
    using execute_step_frame [OF assms(2)] by simp_all
  have l2: "length (steps (plan s2)) = length (steps (plan s))"
    using f(1) by (simp add: set_running_def)
  have l1: "length (steps p1) = length (steps (plan s))"
    using l2 by (simp add: p1_def length_steps_reflect)
  have c: "consecutive_failures s1 = (if ok then 0 else consecutive_failures s + 1)"
    using f(2) by (simp add: s1_def after_dispatch_counter)
  have g': "g = (\<not> ok \<and> status (steps p1 ! i) = ''failed'' \<and> consecutive_failures s2 + 1 < 3)"
    unfolding g_def using c f(2) by (cases ok) simp_all
  have p0: "plan s1 =
      (if \<not> ok \<and> status (steps p1 ! i) = ''failed'' \<and> consecutive_failures s2 + 1 < 3
       then the (revise_plan (Some p1) (steps p1 ! i)) else p1)"
    unfolding s1_def p1_def by (simp only: after_dispatch_plan Let_def)
  have p: "plan s1 = (if g then the (revise_plan (Some p1) (steps p1 ! i)) else p1)"
    unfolding g' by (rule p0)
  have a: "g" if n: "length (steps (plan s1)) \<noteq> length (steps (plan s))"
  proof (rule ccontr)
    assume ng: "\<not> g"
    have "plan s1 = p1" by (subst p) (rule if_not_P [OF ng])
    then show False using n l1 by simp
  qed
  have d: "plan s1 = p1 \<and> length (steps (plan s1)) = length (steps (plan s))"
    if t: "\<not> ok \<and> 3 \<le> consecutive_failures s"
  proof -
    have "\<not> consecutive_failures s1 < 3" using t c by simp
    then have ng: "\<not> g" by (simp add: g_def)
    have "plan s1 = p1" by (subst p) (rule if_not_P [OF ng])
    then show ?thesis using l1 by simp
  qed
  have x5: "length (steps (plan s1)) \<noteq> length (steps (plan s)) \<longrightarrow> g"
    using a by blast
  have x6: "\<not> ok \<and> 3 \<le> consecutive_failures s \<longrightarrow>
        plan s1 = p1 \<and> length (steps (plan s1)) = length (steps (plan s))"
    using d by blast
  have "loop_body w ags s = Inr (False, s1) \<and>
     p1 = snd (reflect (plan s2) i res ok) \<and>
     consecutive_failures s1 = (if ok then 0 else consecutive_failures s + 1) \<and>
     plan s1 = (if g then the (revise_plan (Some p1) (steps p1 ! i)) else p1) \<and>
     (length (steps (plan s1)) \<noteq> length (steps (plan s)) \<longrightarrow> g) \<and>
     (\<not> ok \<and> 3 \<le> consecutive_failures s \<longrightarrow>
        plan s1 = p1 \<and> length (steps (plan s1)) = length (steps (plan s)))"
    using b p1_def c p x5 x6 by (intro conjI)
  then show ?thesis
    unfolding g_def by (intro exI [of _ s1] exI [of _ p1])
qed

text \<open>
  In \<open>state_three_failures\<close> the pending step B has one attempt left and five failures
  came in a row. Its dispatch fails: B is now failed, the counter is 6, and the plan still
  has its two steps.
\<close>

theorem revision_circuit_breaker_witness:
  "get_next_step (plan state_three_failures) = Some 1 \<and>
   (\<exists>s1. loop_body w_fail [''coder''] state_three_failures = Inr (False, s1) \<and>
      consecutive_failures s1 = 6 \<and> length (steps (plan s1)) = 2)"
proof -
  have n: "get_next_step (plan state_three_failures) = Some 1"
    by (simp add: state_three_failures_def initial_state_def plan_eval)
  have "\<exists>s2. execute_step w_fail [''coder'']
      (state_three_failures\<lparr>iteration := iteration state_three_failures + 1\<rparr>) 1 =
      Inr (''boom'', False, s2)"
    by (simp add: state_three_failures_def run_eval plan_of_def w_fail_def)
  then obtain s2 where e: "execute_step w_fail [''coder'']
      (state_three_failures\<lparr>iteration := iteration state_three_failures + 1\<rparr>) 1 =
      Inr (''boom'', False, s2)" by blast
  have c: "consecutive_failures state_three_failures = 5"
    and l: "length (steps (plan state_three_failures)) = 2"
    by (simp_all add: state_three_failures_def initial_state_def plan_of_def)
  from revision_circuit_breaker [OF n e] obtain s1 p1 where
    r: "loop_body w_fail [''coder''] state_three_failures = Inr (False, s1)"
      "consecutive_failures s1 = (if False then 0 else consecutive_failures state_three_failures + 1)"
      "\<not> False \<and> 3 \<le> consecutive_failures state_three_failures \<longrightarrow>
        plan s1 = p1 \<and> length (steps (plan s1)) = length (steps (plan state_three_failures))"
    by blast
  have "consecutive_failures s1 = 6" using r(2) c by simp
  moreover have "3 \<le> consecutive_failures state_three_failures" using c by simp
  then have "length (steps (plan s1)) = length (steps (plan state_three_failures))"
    using r(3) by blast
  then have "length (steps (plan s1)) = 2" using l by simp
  ultimately show ?thesis using n r(1) by blast
qed

section \<open>The dispatcher's invocations and the execution memory\<close>

lemma browse_shape:
  "coder_browse_for_install w ags s = (r, s1) \<Longrightarrow>
   (s1 = s \<and> r = []) \<or> (s1 = s\<lparr>invoked := invoked s @ [''web'']\<rparr>)"
  by (auto simp: coder_browse_for_install_def invoke_def split: if_splits outcome.splits)

lemma handle_install_failure_shape:
  "handle_install_failure_with_browsing w ags s t = (b, s1) \<Longrightarrow>
   (s1 = s \<and> \<not> b) \<or> (s1 = s\<lparr>invoked := invoked s @ [''web'']\<rparr> \<and> install_signature t)"
  unfolding handle_install_failure_with_browsing_def
  by (auto split: if_splits option.splits prod.splits dest!: browse_shape)

text \<open>
  C7, as stated, fails in its last part: when the worker's invocation raises, the dispatcher
  returns the error text and no execution-memory entry is appended for that invocation.
\<close>

theorem execution_memory_after_fault_counterexample:
  "\<exists>s1. execute_step w_raise [''coder''] (initial_state plan_ab []) 0 =
          Inr (''Error: connection reset'', False, s1) \<and>
        invoked s1 = [''coder''] \<and> execution_memory s1 = []"
  by (simp add: run_eval plan_ab_def plan_of_def w_raise_def)

text \<open>
  C7, amended. A dispatch that returns has resolved a worker \<open>key\<close> and did one of three
  things. Its first invocation of the worker raised: nothing is recorded and the result is
  the error text with a false flag. Or the invocation returned and the worker was not
  invoked again: one entry is recorded, and at most the browse worker was asked (only for
  the \<open>coder\<close> worker after a failure). Or, for the \<open>coder\<close> worker whose failure text
  carries an unmet-dependency signature, the browse worker was asked and the worker was
  invoked once more: a second entry, tagged as a browse-assisted retry, is recorded if that
  invocation returned, and none if it raised. In every case the resolved worker is invoked at
  most twice, and an entry is appended after each of its invocations that returned; the
  browse worker's invocation and an invocation that raises append none.
\<close>

theorem execute_step_single_remediation:
  assumes "execute_step w ags s i = Inr (res, ok, s1)"
    and "i < length (steps (plan s))"
  shows "\<exists>key.
    resolve_agent ags (agent_type (steps (plan s) ! i)) = Inr key \<and>
    ((\<exists>e. w (length (invoked s)) key = Raises e \<and>
          invoked s1 = invoked s @ [key] \<and>
          execution_memory s1 = execution_memory s \<and>
          res = ''Error: '' @ e \<and> \<not> ok) \<or>
     (\<exists>a. w (length (invoked s)) key = Returns a ok \<and> res = a \<and>
          (invoked s1 = invoked s @ [key] \<or>
           key = ''coder'' \<and> \<not> ok \<and> invoked s1 = invoked s @ [key, ''web'']) \<and>
          execution_memory s1 = execution_memory s @
            [\<lparr>mem_step_id = id_step (steps (plan s) ! i), mem_agent = key, mem_success = ok,
              mem_answer_preview = take 200 a, mem_retry_with_browse = False\<rparr>]) \<or>
     (\<exists>a. key = ''coder'' \<and> w (length (invoked s)) key = Returns a False \<and>
          install_signature a \<and>
          invoked s1 = invoked s @ [key, ''web'', key] \<and>
          ((\<exists>e. w (length (invoked s) + 2) key = Raises e \<and> res = ''Error: '' @ e \<and> \<not> ok \<and>
                execution_memory s1 = execution_memory s @
                  [\<lparr>mem_step_id = id_step (steps (plan s) ! i), mem_agent = key,
                    mem_success = False, mem_answer_preview = take 200 a,
                    mem_retry_with_browse = False\<rparr>]) \<or>
           (w (length (invoked s) + 2) key = Returns res ok \<and>
                execution_memory s1 = execution_memory s @
                  [\<lparr>mem_step_id = id_step (steps (plan s) ! i), mem_agent = key,
                    mem_success = False, mem_answer_preview = take 200 a,
                    mem_retry_with_browse = False\<rparr>,
                   \<lparr>mem_step_id = id_step (steps (plan s) ! i), mem_agent = key,
                    mem_success = ok, mem_answer_preview = take 200 res,
                    mem_retry_with_browse = True\<rparr>])))) \<and>
    length (filter (\<lambda>x. x = key) (drop (length (invoked s)) (invoked s1))) \<le> 2 \<and>
    length (execution_memory s1) \<le> length (execution_memory s) + 2"
proof -
  let ?s = "set_running i s"
  let ?step = "steps (plan ?s) ! i"
  let ?n = "length (invoked s)"
  have id: "id_step ?step = id_step (steps (plan s) ! i)"
    and ty: "agent_type ?step = agent_type (steps (plan s) ! i)"
    using assms(2) by (simp_all add: set_running_def)
  have inv: "invoked ?s = invoked s" and mem: "execution_memory ?s = execution_memory s"
    by (simp_all add: set_running_def)
  from assms(1) obtain key where
    key: "resolve_agent ags (agent_type (steps (plan s) ! i)) = Inr key"
    unfolding execute_step_def Let_def ty by (auto split: sum.splits)
  let ?e1 = "\<lambda>a b. \<lparr>mem_step_id = id_step (steps (plan s) ! i), mem_agent = key,
      mem_success = b, mem_answer_preview = take 200 a, mem_retry_with_browse = False\<rparr>"
  let ?s1 = "?s\<lparr>invoked := invoked s @ [key]\<rparr>"
  have i1: "invoke w key ?s = (w ?n key, ?s1)"
    by (simp add: invoke_def inv)
  show ?thesis
  proof (cases "w ?n key")
    case (Raises e)
    have x: "execute_step w ags s i = Inr (''Error: '' @ e, False, ?s1)"
      by (simp only: execute_step_def Let_def ty key sum.case i1 prod.case Raises outcome.case)
    have "(Inr (res, ok, s1) :: fault + string \<times> bool \<times> run_state) = Inr (''Error: '' @ e, False, ?s1)"
      by (rule trans [OF assms(1) [symmetric] x])
    then have r: "res = ''Error: '' @ e" "\<not> ok" "s1 = ?s1" by simp_all
    have "invoked s1 = invoked s @ [key]" "execution_memory s1 = execution_memory s"
      using r(3) mem by simp_all
    then show ?thesis using key Raises r(1,2) by auto
  next
    case (Returns a b)
    let ?s2 = "remember (memory_entry ?step key b a False) ?s1"
    have m2: "execution_memory ?s2 = execution_memory s @ [?e1 a b]"
      and v2: "invoked ?s2 = invoked s @ [key]"
      by (simp_all add: remember_def memory_entry_def id mem)
    show ?thesis
    proof (cases "\<not> b \<and> key = ''coder''")
      case False
      have x: "execute_step w ags s i = Inr (a, b, ?s2)"
        by (simp only: execute_step_def Let_def ty key sum.case i1 prod.case Returns
            outcome.case if_not_P [OF False])
      have "(Inr (res, ok, s1) :: fault + string \<times> bool \<times> run_state) = Inr (a, b, ?s2)"
        by (rule trans [OF assms(1) [symmetric] x])
      then have r: "res = a" "ok = b" "s1 = ?s2" by simp_all
      have "w ?n key = Returns a ok" using Returns r(2) by simp
      moreover have "invoked s1 = invoked s @ [key]" using r(3) v2 by simp
      moreover have "execution_memory s1 = execution_memory s @ [?e1 a ok]"
        using r(2,3) m2 by simp
      ultimately show ?thesis using key r(1) by auto
    next
      case True
      then have b: "\<not> b" and c: "key = ''coder''" by simp_all
      obtain bf s3 where h: "handle_install_failure_with_browsing w ags ?s2 a = (bf, s3)"
        by (cases "handle_install_failure_with_browsing w ags ?s2 a") auto
      have x: "execute_step w ags s i =
          (if bf then
             (case invoke w key s3 of
                (Raises e, s4) \<Rightarrow> Inr (''Error: '' @ e, False, s4)
              | (Returns answer2 ok2, s4) \<Rightarrow>
                  Inr (answer2, ok2, remember (memory_entry ?step key ok2 answer2 True) s4))
           else Inr (a, b, s3))"
        by (simp only: execute_step_def Let_def ty key sum.case i1 prod.case Returns
            outcome.case if_P [OF True] h)
      have e: "(Inr (res, ok, s1) :: fault + string \<times> bool \<times> run_state) =
          (if bf then
             (case invoke w key s3 of
                (Raises e, s4) \<Rightarrow> Inr (''Error: '' @ e, False, s4)
              | (Returns answer2 ok2, s4) \<Rightarrow>
                  Inr (answer2, ok2, remember (memory_entry ?step key ok2 answer2 True) s4))
           else Inr (a, b, s3))"
        by (rule trans [OF assms(1) [symmetric] x])
      show ?thesis
      proof (cases bf)
        case False
        then have r: "res = a" "ok = b" "s1 = s3" using e by simp_all
        from handle_install_failure_shape [OF h]
        have "s3 = ?s2 \<or> s3 = ?s2\<lparr>invoked := invoked ?s2 @ [''web'']\<rparr>" by blast
        then have v: "invoked s1 = invoked s @ [key] \<or> invoked s1 = invoked s @ [key, ''web'']"
          and m: "execution_memory s1 = execution_memory s @ [?e1 a ok]"
          using r(2,3) v2 m2 by auto
        have "w ?n key = Returns a ok" using Returns r(2) by simp
        moreover have "\<not> ok" using b r(2) by simp
        ultimately show ?thesis using key c r(1) v m by auto
      next
        case True
        from handle_install_failure_shape [OF h] True
        have s3: "s3 = ?s2\<lparr>invoked := invoked ?s2 @ [''web'']\<rparr>" and sg: "install_signature a"
          by auto
        have v3: "invoked s3 = invoked s @ [key, ''web'']"
          and m3: "execution_memory s3 = execution_memory s @ [?e1 a False]"
          using s3 v2 m2 b by simp_all
        let ?s4 = "s3\<lparr>invoked := invoked s3 @ [key]\<rparr>"
        have i2: "invoke w key s3 = (w (?n + 2) key, ?s4)"
          by (simp add: invoke_def v3)
        have v4: "invoked ?s4 = invoked s @ [key, ''web'', key]"
          and m4: "execution_memory ?s4 = execution_memory s @ [?e1 a False]"
          using v3 m3 by simp_all
        have w1: "w ?n key = Returns a False" using Returns b by simp
        show ?thesis
        proof (cases "w (?n + 2) key")
          case (Raises e2)
          then have "(Inr (res, ok, s1) :: fault + string \<times> bool \<times> run_state) = Inr (''Error: '' @ e2, False, ?s4)"
            using e True i2 by simp
          then have r: "res = ''Error: '' @ e2" "\<not> ok" "s1 = ?s4" by simp_all
          have "invoked s1 = invoked s @ [key, ''web'', key]"
            "execution_memory s1 = execution_memory s @ [?e1 a False]"
            using r(3) v4 m4 by simp_all
          then show ?thesis using key c w1 sg Raises r(1,2) by auto
        next
          case (Returns a2 b2)
          let ?s5 = "remember (memory_entry ?step key b2 a2 True) ?s4"
          have "(Inr (res, ok, s1) :: fault + string \<times> bool \<times> run_state) = Inr (a2, b2, ?s5)"
            using e True i2 Returns by simp
          then have r: "res = a2" "ok = b2" "s1 = ?s5" by simp_all
          have "invoked s1 = invoked s @ [key, ''web'', key]"
            "execution_memory s1 = execution_memory s @ [?e1 a False,
               \<lparr>mem_step_id = id_step (steps (plan s) ! i), mem_agent = key,
                mem_success = ok, mem_answer_preview = take 200 res,
                mem_retry_with_browse = True\<rparr>]"
            using r v4 m4 by (simp_all add: remember_def memory_entry_def id)
          moreover have "w (?n + 2) key = Returns res ok" using Returns r(1,2) by simp
          ultimately show ?thesis using key c w1 sg by auto
        qed
      qed
    qed
  qed
qed
text \<open>
  A dispatch with a browse-assisted retry: the coder fails on a missing module, the browse
  worker answers, the coder is invoked a second time and succeeds.
\<close>

theorem execute_step_single_remediation_witness:
  "0 < length (steps (plan (initial_state plan_ab []))) \<and>
   (\<exists>s1. execute_step w_retry [''coder'', ''web''] (initial_state plan_ab []) 0 =
            Inr (''done'', True, s1) \<and>
         invoked s1 = [''coder'', ''web'', ''coder''] \<and>
         map mem_retry_with_browse (execution_memory s1) = [False, True] \<and>
         length (filter (\<lambda>x. x = ''coder'') (invoked s1)) \<le> 2 \<and>
         length (execution_memory s1) \<le> 2)"
proof -
  have l: "0 < length (steps (plan (initial_state plan_ab [])))"
    by (simp add: initial_state_def plan_ab_def plan_of_def)
  have "\<exists>s1. execute_step w_retry [''coder'', ''web''] (initial_state plan_ab []) 0 =
            Inr (''done'', True, s1) \<and>
         invoked s1 = [''coder'', ''web'', ''coder''] \<and>
         map mem_retry_with_browse (execution_memory s1) = [False, True]"
    by (simp add: run_eval plan_ab_def plan_of_def w_retry_def module_error_def
        coder_browse_for_install_def package_match_def match_module_at_def is_word_char_def)
  then obtain s1 where
    e: "execute_step w_retry [''coder'', ''web''] (initial_state plan_ab []) 0 =
          Inr (''done'', True, s1)"
    and v: "invoked s1 = [''coder'', ''web'', ''coder'']"
    and m: "map mem_retry_with_browse (execution_memory s1) = [False, True]"
    by (elim exE conjE)
  have k: "resolve_agent [''coder'', ''web'']
      (agent_type (steps (plan (initial_state plan_ab [])) ! 0)) = Inr ''coder''"
    by (simp add: run_eval plan_ab_def plan_of_def)
  have z: "invoked (initial_state plan_ab []) = []" "execution_memory (initial_state plan_ab []) = []"
    by (simp_all add: initial_state_def)
  from execute_step_single_remediation [OF e l] obtain key where
    r: "resolve_agent [''coder'', ''web'']
      (agent_type (steps (plan (initial_state plan_ab [])) ! 0)) = Inr key"
    "length (filter (\<lambda>x. x = key)
       (drop (length (invoked (initial_state plan_ab []))) (invoked s1))) \<le> 2"
    "length (execution_memory s1) \<le> length (execution_memory (initial_state plan_ab [])) + 2"
    by blast
  have "key = ''coder''" using r(1) k by simp
  then have "length (filter (\<lambda>x. x = ''coder'') (invoked s1)) \<le> 2"
    using r(2) z(1) by simp
  moreover have "length (execution_memory s1) \<le> 2"
    using r(3) z(2) by simp
  ultimately show ?thesis using l e v m by (intro conjI exI [of _ s1])
qed

section \<open>The loop of the run controller\<close>

lemma loop_body_break_iteration:
  "loop_body w ags s = Inr (True, s1) \<Longrightarrow> iteration s1 = iteration s"
  by (auto simp: loop_body_def split: option.splits sum.splits prod.splits if_splits)

lemma while_loop_iteration_bound:
  "while_loop w ags m s = Inr s1 \<Longrightarrow> iteration s \<le> m \<Longrightarrow> iteration s1 \<le> m"
proof (induction w ags m s rule: while_loop.induct)
  case (1 w ags m s)
  show ?case
  proof (cases "\<not> is_complete (plan s) \<and> iteration s < m")
    case False
    have "while_loop w ags m s = Inr s"
      by (subst while_loop.simps) (rule if_not_P [OF False])
    then show ?thesis using "1.prems" by simp
  next
    case True
    have u: "while_loop w ags m s =
        (case loop_body w ags s of
           Inl e \<Rightarrow> Inl e
         | Inr (True, s2) \<Rightarrow> Inr s2
         | Inr (False, s2) \<Rightarrow> while_loop w ags m s2)"
      by (subst while_loop.simps) (rule if_P [OF True])
    show ?thesis
    proof (cases "loop_body w ags s")
      case (Inl e)
      then show ?thesis using u "1.prems" by simp
    next
      case (Inr r)
      obtain b s2 where r: "r = (b, s2)" by (cases r)
      show ?thesis
      proof (cases b)
        case True
        then have "s1 = s2" using u Inr r "1.prems"(1) by simp
        moreover have "iteration s2 = iteration s"
          using Inr r True by (simp add: loop_body_break_iteration)
        ultimately show ?thesis using "1.prems"(2) by simp
      next
        case False
        then have w: "while_loop w ags m s2 = Inr s1" using u Inr r "1.prems"(1) by simp
        have "iteration s2 = Suc (iteration s)"
          using Inr r False by (simp add: loop_body_iteration)
        then have "iteration s2 \<le> m" using True by simp
        moreover have bf: "b = False" using False by simp
        ultimately show ?thesis
          using "1.IH" [OF True Inr r [symmetric] bf w] by simp
      qed
    qed
  qed
qed

lemma while_loop_reaches:
  "while_loop w ags m s = Inr s1 \<Longrightarrow> run_reaches w ags m s0 s \<Longrightarrow> run_reaches w ags m s0 s1"
proof (induction w ags m s rule: while_loop.induct)
  case (1 w ags m s)
  show ?case
  proof (cases "\<not> is_complete (plan s) \<and> iteration s < m")
    case False
    have "while_loop w ags m s = Inr s"
      by (subst while_loop.simps) (rule if_not_P [OF False])
    then show ?thesis using "1.prems" by simp
  next
    case True
    have u: "while_loop w ags m s =
        (case loop_body w ags s of
           Inl e \<Rightarrow> Inl e
         | Inr (True, s2) \<Rightarrow> Inr s2
         | Inr (False, s2) \<Rightarrow> while_loop w ags m s2)"
      by (subst while_loop.simps) (rule if_P [OF True])
    show ?thesis
    proof (cases "loop_body w ags s")
      case (Inl e)
      then show ?thesis using u "1.prems" by simp
    next
      case (Inr r)
      obtain b s2 where r: "r = (b, s2)" by (cases r)
      have p: "run_reaches w ags m s0 s2"
        using run_reaches.pass [OF "1.prems"(2) _ _ Inr [unfolded r]] True by simp
      show ?thesis
      proof (cases b)
        case True
        then have "s1 = s2" using u Inr r "1.prems"(1) by simp
        then show ?thesis using p by simp
      next
        case False
        then have w: "while_loop w ags m s2 = Inr s1" using u Inr r "1.prems"(1) by simp
        have bf: "b = False" using False by simp
        show ?thesis
          using "1.IH" [OF True Inr r [symmetric] bf w p] .
      qed
    qed
  qed
qed

lemma while_loop_deadlock:
  assumes "\<not> is_complete (plan s)" and "iteration s < m"
    and "get_next_step (plan s) = None" and "has_pending (plan s)"
  shows "while_loop w ags m s = Inr (s\<lparr>plan := mark_deadlock (plan s)\<rparr>)"
  using assms by (subst while_loop.simps) (simp add: loop_body_def)
lemma get_next_step_None_blocked:
  assumes "get_next_step p = None" and "st \<in> set (steps p)" and "status st = ''pending''"
  shows "\<exists>d t. d \<in> set (dependencies st) \<and> find_dep (steps p) d = Some t \<and>
    status t \<noteq> ''completed''"
proof -
  from assms(2) obtain i where i: "i < length (steps p)" "steps p ! i = st"
    by (auto simp: in_set_conv_nth)
  have "\<not> ready (steps p) (steps p ! i)"
    using assms(1) i(1) by (simp add: get_next_step_None)
  then have "\<not> deps_met (steps p) (dependencies st)"
    using assms(3) i(2) by (simp add: ready_def)
  then obtain d where d: "d \<in> set (dependencies st)" "find_dep (steps p) d \<noteq> None"
    "\<not> (\<exists>t. find_dep (steps p) d = Some t \<and> status t = ''completed'')"
    unfolding deps_met_iff by auto
  from d(2) obtain t where t: "find_dep (steps p) d = Some t" by auto
  with d(3) have "status t \<noteq> ''completed''" by auto
  with d(1) t show ?thesis by auto
qed

lemma run_loop_iteration_bound:
  assumes "run_loop w ags v mem g agent_tasks = Inr s1"
  shows "iteration s1 \<le> 4 * length agent_tasks"
proof -
  let ?p = "create_plan_from_tasks g agent_tasks"
  let ?m = "length (steps ?p) * 4"
  have m: "?m = 4 * length agent_tasks"
    by (simp add: create_plan_from_tasks_def)
  from assms obtain s where s: "while_loop w ags ?m (initial_state ?p mem) = Inr s"
    and i: "iteration s1 = iteration s"
    unfolding run_loop_def Let_def
    by (auto simp: invoke_def split: sum.splits option.splits if_splits outcome.splits)
  have "iteration (initial_state ?p mem) \<le> ?m"
    by (simp add: initial_state_def)
  from while_loop_iteration_bound [OF s this] show ?thesis
    using i m by simp
qed

text \<open>
  C1, as stated, fails: the scheduler returns the pending step of \<open>plan_99\<close>, whose
  dependency 99 resolves to no step, and the run over that plan with a worker that succeeds
  ends with the step completed and no error, not failed by deadlock.
\<close>

theorem unresolved_dependency_counterexample:
  "create_plan_from_tasks ''build X'' [task_99] = plan_99 \<and>
   find_dep (steps plan_99) ''99'' = None \<and>
   get_next_step plan_99 = Some 0 \<and>
   (\<exists>s. run_loop w_ok [''coder''] None [] ''build X'' [task_99] = Inr s \<and>
        map status (steps (plan s)) = [''completed''] \<and>
        map error (steps (plan s)) = [[]])"
  by (simp add: run_eval task_99_def w_ok_def plan_99_def plan_of_def)

text \<open>
  C1, amended. A dependency identifier that resolves to no step of the plan does not block
  a step: a pending step all of whose dependencies are unresolved is ready. When the
  scheduler finds no ready step while pending steps remain, the loop stops at once and every
  pending step is marked failed with the dependency-deadlock error; in that situation every
  pending step has a dependency that resolves to a step that is not completed. The loop is a
  total function, and a run that returns has made at most four times the initial number of
  steps dispatching passes.
\<close>

theorem unresolved_dependency_and_deadlock:
  "(status st = ''pending'' \<and> (\<forall>d \<in> set (dependencies st). find_dep ss d = None) \<longrightarrow>
      ready ss st) \<and>
   (\<not> is_complete (plan s) \<and> iteration s < m \<and> get_next_step (plan s) = None \<and>
    has_pending (plan s) \<longrightarrow>
      while_loop w ags m s = Inr (s\<lparr>plan := mark_deadlock (plan s)\<rparr>) \<and>
      steps (mark_deadlock (plan s)) =
        map (\<lambda>st. if status st = ''pending''
                  then st\<lparr>status := ''failed'', error := deadlock_error\<rparr> else st)
          (steps (plan s)) \<and>
      (\<forall>st \<in> set (steps (plan s)). status st = ''pending'' \<longrightarrow>
         (\<exists>d t. d \<in> set (dependencies st) \<and> find_dep (steps (plan s)) d = Some t \<and>
                status t \<noteq> ''completed''))) \<and>
   (run_loop w ags v mem g agent_tasks = Inr s1 \<longrightarrow> iteration s1 \<le> 4 * length agent_tasks)"
proof (intro conjI impI ballI)
  assume "status st = ''pending'' \<and> (\<forall>d \<in> set (dependencies st). find_dep ss d = None)"
  then show "ready ss st"
    by (simp add: ready_def deps_met_iff)
next
  assume a: "\<not> is_complete (plan s) \<and> iteration s < m \<and> get_next_step (plan s) = None \<and>
    has_pending (plan s)"
  then show "while_loop w ags m s = Inr (s\<lparr>plan := mark_deadlock (plan s)\<rparr>)"
    by (simp add: while_loop_deadlock)
  show "steps (mark_deadlock (plan s)) =
        map (\<lambda>st. if status st = ''pending''
                  then st\<lparr>status := ''failed'', error := deadlock_error\<rparr> else st)
          (steps (plan s))"
    by (simp add: mark_deadlock_def)
  fix x
  assume "x \<in> set (steps (plan s))" and "status x = ''pending''"
  then show "\<exists>d t. d \<in> set (dependencies x) \<and> find_dep (steps (plan s)) d = Some t \<and>
                status t \<noteq> ''completed''"
    using a get_next_step_None_blocked [of "plan s" x] by simp
next
  assume "run_loop w ags v mem g agent_tasks = Inr s1"
  then show "iteration s1 \<le> 4 * length agent_tasks"
    by (rule run_loop_iteration_bound)
qed

text \<open>
  The pending step of \<open>plan_99\<close> is ready. In \<open>state_blocked\<close> B waits for the failed A:
  the loop stops and B is failed with the deadlock error. The run over \<open>task_99\<close> stays
  within four passes.
\<close>

theorem unresolved_dependency_and_deadlock_witness:
  "ready (steps plan_99) (steps plan_99 ! 0) \<and>
   \<not> is_complete (plan state_blocked) \<and> iteration state_blocked < 8 \<and>
   get_next_step (plan state_blocked) = None \<and> has_pending (plan state_blocked) \<and>
   while_loop w_ok [''coder''] 8 state_blocked =
     Inr (state_blocked\<lparr>plan := mark_deadlock (plan state_blocked)\<rparr>) \<and>
   map status (steps (mark_deadlock (plan state_blocked))) = [''failed'', ''failed''] \<and>
   map error (steps (mark_deadlock (plan state_blocked))) = [''boom'', deadlock_error] \<and>
   (\<exists>s. run_loop w_ok [''coder''] None [] ''build X'' [task_99] = Inr s \<and> iteration s \<le> 4)"
proof -
  have h1: "status (steps plan_99 ! 0) = ''pending'' \<and>
      (\<forall>d \<in> set (dependencies (steps plan_99 ! 0)). find_dep (steps plan_99) d = None)"
    by (simp add: plan_99_def plan_eval)
  have h2: "\<not> is_complete (plan state_blocked) \<and> iteration state_blocked < 8 \<and>
      get_next_step (plan state_blocked) = None \<and> has_pending (plan state_blocked)"
    by (simp add: state_blocked_def initial_state_def plan_eval is_complete_def has_pending_def)
  have "\<exists>s. run_loop w_ok [''coder''] None [] ''build X'' [task_99] = Inr s"
    by (simp add: run_eval task_99_def w_ok_def)
  then obtain s where h3: "run_loop w_ok [''coder''] None [] ''build X'' [task_99] = Inr s"
    by (elim exE)
  note t = unresolved_dependency_and_deadlock
    [of "steps plan_99 ! 0" "steps plan_99" state_blocked 8 w_ok "[''coder'']"
        None "[]" "''build X''" "[task_99]" s]
  have c1: "ready (steps plan_99) (steps plan_99 ! 0)"
    using t [THEN conjunct1] h1 by (rule mp)
  have c2: "while_loop w_ok [''coder''] 8 state_blocked =
      Inr (state_blocked\<lparr>plan := mark_deadlock (plan state_blocked)\<rparr>)"
    using t [THEN conjunct2, THEN conjunct1, THEN mp, OF h2] by (rule conjunct1)
  have c3: "iteration s \<le> 4 * length [task_99]"
    using t [THEN conjunct2, THEN conjunct2] h3 by (rule mp)
  have e: "map status (steps (mark_deadlock (plan state_blocked))) = [''failed'', ''failed'']"
    "map error (steps (mark_deadlock (plan state_blocked))) = [''boom'', deadlock_error]"
    by (simp_all add: state_blocked_def initial_state_def plan_of_def new_step_def
        mark_deadlock_def)
  have "\<exists>s. run_loop w_ok [''coder''] None [] ''build X'' [task_99] = Inr s \<and> iteration s \<le> 4"
    using h3 c3 by (intro exI [of _ s]) simp
  with c1 h2 c2 e show ?thesis by (intro conjI) simp_all
qed

end
